theory Spec2Isabelle
  imports Complex_Main "HOL-Library.Word" "HOL-Library.Multiset"
begin

section \<open>Barnes-Hut simulator: data model\<close>

text \<open>
  The embedding follows \<^verbatim>\<open>src/functions.go\<close>. A Go \<^verbatim>\<open>float64\<close> is modelled by a real
  number: the arithmetic of the model is exact, so rounding, overflow, infinities and NaN
  are outside the model. A \<^verbatim>\<open>float64\<close> division by zero does not panic in Go (it yields
  an infinity or NaN) and yields zero in HOL, so the model follows the code only where a
  divisor is not zero; the theorems say where they need that. The struct declarations of the package are not among the source
  files; the records below carry exactly the fields that \<^verbatim>\<open>functions.go\<close> reads and
  writes (\<^verbatim>\<open>copyStars\<close> names every field of a star).

  A \<^verbatim>\<open>*Star\<close> is an address into an explicit store, because tree leaves alias the
  stars of the universe and \<^verbatim>\<open>insertStar\<close> writes through that alias. The nil pointer is
  \<open>None\<close> where the code tests for it (\<^verbatim>\<open>node.star\<close>). A nil slice of children is the
  empty list: the code only ever builds the nil slice and slices of four nodes.
\<close>

type_synonym addr = nat

text \<open>Go: \<^verbatim>\<open>OrderedPair{x, y float64}\<close>.\<close>

record OrderedPair =
  px :: real
  py :: real

text \<open>Go: \<^verbatim>\<open>Quadrant{x, y, width float64}\<close>, the south-west corner and the side length.\<close>

record Quadrant =
  qx :: real
  qy :: real
  qwidth :: real

record Star =
  position :: OrderedPair
  velocity :: OrderedPair
  acceleration :: OrderedPair
  mass :: real
  radius :: real
  red :: "8 word"
  green :: "8 word"
  blue :: "8 word"

text \<open>Go: \<^verbatim>\<open>Universe{width float64; stars []*Star}\<close>.\<close>

record Universe =
  width :: real
  stars :: "addr list"

text \<open>Go: \<^verbatim>\<open>Node{sector Quadrant; star *Star; children []*Node}\<close>.\<close>

datatype Node = Node (sector: Quadrant) (star: "addr option") (children: "Node list")

text \<open>
  The store: the contents of every star object and the next address that an allocation
  (\<^verbatim>\<open>&Star{...}\<close>) returns.
\<close>

record Heap =
  cells :: "addr \<Rightarrow> Star"
  nxt :: addr

definition zeroPair :: OrderedPair where
  "zeroPair = \<lparr>px = 0, py = 0\<rparr>"

text \<open>The zero value of a Go \<^verbatim>\<open>Star\<close>.\<close>

definition zeroStar :: Star where
  "zeroStar = \<lparr>position = zeroPair, velocity = zeroPair, acceleration = zeroPair,
     mass = 0, radius = 0, red = 0, green = 0, blue = 0\<rparr>"

definition alloc :: "Heap \<Rightarrow> Star \<Rightarrow> Heap \<times> addr" where
  "alloc h s = (\<lparr>cells = (cells h)(nxt h := s), nxt = Suc (nxt h)\<rparr>, nxt h)"

definition store :: "Heap \<Rightarrow> addr \<Rightarrow> Star \<Rightarrow> Heap" where
  "store h a s = h\<lparr>cells := (cells h)(a := s)\<rparr>"

section \<open>Geometry and two-body force\<close>

text \<open>
  Modelled from the spec: the package-level constant \<^verbatim>\<open>G\<close>, whose declaration is not
  among the source files; the spec gives \<open>G = 6.67408e-11\<close>.
\<close>

definition G :: real where
  "G = 667408 / 10 ^ 16"

definition inRange :: "OrderedPair \<Rightarrow> Quadrant \<Rightarrow> bool" where
  "inRange pos q \<longleftrightarrow>
     px pos \<ge> qx q \<and> px pos < qx q + qwidth q \<and> py pos \<ge> qy q \<and> py pos < qy q + qwidth q"

definition computeDistance :: "Star \<Rightarrow> Star \<Rightarrow> real" where
  "computeDistance s s2 =
     (let disx = px (position s2) - px (position s);
          disy = py (position s2) - py (position s)
      in sqrt (disx * disx + disy * disy))"

definition computeGravitationalForce :: "Star \<Rightarrow> Star \<Rightarrow> real \<Rightarrow> OrderedPair" where
  "computeGravitationalForce s s2 dis =
     (if dis = 0 then zeroPair
      else let gMag = G * mass s * mass s2 / (dis * dis);
               dx = px (position s) - px (position s2);
               dy = py (position s) - py (position s2)
           in \<lparr>px = gMag * dx / dis, py = gMag * dy / dis\<rparr>)"

definition UpdateVelocity :: "Star \<Rightarrow> OrderedPair \<Rightarrow> real \<Rightarrow> OrderedPair" where
  "UpdateVelocity s oldAcceleration timeStep =
     \<lparr>px = 0.5 * (px (acceleration s) + px oldAcceleration) * timeStep + px (velocity s),
      py = 0.5 * (py (acceleration s) + py oldAcceleration) * timeStep + py (velocity s)\<rparr>"

definition UpdatePosition :: "Star \<Rightarrow> OrderedPair \<Rightarrow> OrderedPair \<Rightarrow> real \<Rightarrow> OrderedPair" where
  "UpdatePosition s oldAcceleration oldVelocity timeStep =
     \<lparr>px = 0.5 * px oldAcceleration * (timeStep * timeStep) + px oldVelocity * timeStep
            + px (position s),
      py = 0.5 * py oldAcceleration * (timeStep * timeStep) + py oldVelocity * timeStep
            + py (position s)\<rparr>"

section \<open>Building the quadtree\<close>

text \<open>\<^verbatim>\<open>initializeQuadrant\<close>: the four children, in the order NW, NE, SW, SE.\<close>

definition initializeQuadrant :: "Quadrant \<Rightarrow> Node list" where
  "initializeQuadrant q =
     (let half = qwidth q / 2 in
      [Node \<lparr>qx = qx q, qy = qy q + half, qwidth = half\<rparr> None [],
       Node \<lparr>qx = qx q + half, qy = qy q + half, qwidth = half\<rparr> None [],
       Node \<lparr>qx = qx q, qy = qy q, qwidth = half\<rparr> None [],
       Node \<lparr>qx = qx q + half, qy = qy q, qwidth = half\<rparr> None []])"

text \<open>
  \<^verbatim>\<open>updateCenterOfMass\<close> on a node whose aggregate pointer is \<open>s\<close>: a nil aggregate is
  replaced by a fresh dummy star, an existing one is overwritten in place.
\<close>

definition updateCenterOfMass :: "Heap \<Rightarrow> addr option \<Rightarrow> addr \<Rightarrow> Heap \<times> addr option" where
  "updateCenterOfMass h s newStar =
     (case s of
        None \<Rightarrow>
          (let (h', d) = alloc h (zeroStar\<lparr>position := position (cells h newStar),
                                          mass := mass (cells h newStar)\<rparr>)
           in (h', Some d))
      | Some n \<Rightarrow>
          (let old = cells h n; new = cells h newStar;
               totalMass = mass old + mass new;
               x' = (px (position old) * mass old + px (position new) * mass new) / totalMass;
               y' = (py (position old) * mass old + py (position new) * mass new) / totalMass
           in (store h n (old\<lparr>position := \<lparr>px = x', py = y'\<rparr>, mass := totalMass\<rparr>), Some n)))"

text \<open>
  The loop of \<^verbatim>\<open>calculateCenterOfMass\<close>: the running \<^verbatim>\<open>totalMass\<close>, \<^verbatim>\<open>xPos\<close>,
  \<^verbatim>\<open>yPos\<close> over the children that carry a star.
\<close>

fun sumChildren :: "Heap \<Rightarrow> Node list \<Rightarrow> real \<times> real \<times> real \<Rightarrow> real \<times> real \<times> real" where
  "sumChildren h [] acc = acc"
| "sumChildren h (child # rest) (totalMass, xPos, yPos) =
     (case star child of
        None \<Rightarrow> sumChildren h rest (totalMass, xPos, yPos)
      | Some c \<Rightarrow>
          sumChildren h rest
            (totalMass + mass (cells h c),
             xPos + px (position (cells h c)) * mass (cells h c),
             yPos + py (position (cells h c)) * mass (cells h c)))"

definition calculateCenterOfMass :: "Heap \<Rightarrow> addr option \<Rightarrow> Node list \<Rightarrow> Heap \<times> addr option" where
  "calculateCenterOfMass h s cs =
     (if cs = [] then (h, s)
      else let (totalMass, xPos, yPos) = sumChildren h cs (0, 0, 0) in
        if totalMass > 0 then
          (let (h', d) = alloc h (zeroStar\<lparr>position := \<lparr>px = xPos / totalMass, py = yPos / totalMass\<rparr>,
                                          mass := totalMass\<rparr>)
           in (h', Some d))
        else (h, s))"

text \<open>
  \<^verbatim>\<open>insertStar\<close> and the loop of \<^verbatim>\<open>insertIntoChild\<close> over the children: the first
  child whose sector holds the star receives it, and a star that no child holds is
  dropped. The third branch writes the mass of the incoming star into the star that the
  leaf already points to.
\<close>

function insertStar :: "Heap \<Rightarrow> Node \<Rightarrow> addr \<Rightarrow> Heap \<times> Node"
  and insertIntoChild :: "Heap \<Rightarrow> Node list \<Rightarrow> addr \<Rightarrow> Heap \<times> Node list"
where
  "insertStar h (Node q s cs) a =
     (if s = None \<and> cs = [] then (h, Node q (Some a) [])
      else if cs \<noteq> [] then
        (let (h1, s1) = updateCenterOfMass h s a;
             (h2, cs2) = insertIntoChild h1 cs a
         in (h2, Node q s1 cs2))
      else if px (position (cells h (the s))) = px (position (cells h a))
            \<and> py (position (cells h (the s))) = py (position (cells h a)) then
        (store h (the s) ((cells h (the s))\<lparr>mass := mass (cells h a)\<rparr>), Node q s cs)
      else
        (let existing = the s;
             (h1, cs1) = insertIntoChild h (initializeQuadrant q) existing;
             (h2, cs2) = insertIntoChild h1 cs1 a;
             (h3, s3) = calculateCenterOfMass h2 None cs2
         in (h3, Node q s3 cs2)))"
| "insertIntoChild h [] a = (h, [])"
| "insertIntoChild h (child # rest) a =
     (if inRange (position (cells h a)) (sector child) then
        (let (h', child') = insertStar h child a in (h', child' # rest))
      else
        (let (h', rest') = insertIntoChild h rest a in (h', child # rest')))"
  by pat_completeness auto

subsection \<open>Termination of the insertion\<close>

text \<open>
  Descending into an existing child removes an internal node from the tree under
  consideration. Splitting a leaf keeps that number at zero, and the side length of the
  leaf measured in units of the separation of the two stars bounds the number of further
  splits: two stars inside one child are closer than its side on both axes.
\<close>

fun internalNodes :: "Node \<Rightarrow> nat" where
  "internalNodes (Node q s cs) = (if cs = [] then 0 else Suc (sum_list (map internalNodes cs)))"

definition separation :: "Heap \<Rightarrow> addr \<Rightarrow> addr \<Rightarrow> real" where
  "separation h e a =
     max \<bar>px (position (cells h e)) - px (position (cells h a))\<bar>
         \<bar>py (position (cells h e)) - py (position (cells h a))\<bar>"

definition splitBound :: "Heap \<Rightarrow> Node \<Rightarrow> addr \<Rightarrow> nat" where
  "splitBound h n a =
     (case star n of
        None \<Rightarrow> 1
      | Some e \<Rightarrow>
          if children n \<noteq> [] \<or> separation h e a = 0 then 1
          else 10 * (1 + nat \<lceil>qwidth (sector n) / separation h e a\<rceil>))"

fun splitBounds :: "Heap \<Rightarrow> Node list \<Rightarrow> addr \<Rightarrow> nat" where
  "splitBounds h [] a = 0"
| "splitBounds h (c # cs) a =
     1 + (if inRange (position (cells h a)) (sector c) then splitBound h c a else 0)
       + splitBounds h cs a"

definition insertOrder ::
  "((Heap \<times> Node \<times> addr) + (Heap \<times> Node list \<times> addr)) rel" where
  "insertOrder = inv_image (less_than <*lex*> less_than)
     (\<lambda>v. case v of
        Inl (h, n, a) \<Rightarrow> (internalNodes n, splitBound h n a)
      | Inr (h, cs, a) \<Rightarrow> (sum_list (map internalNodes cs), splitBounds h cs a))"

lemma ceiling_half_less:
  fixes w d :: real
  assumes "0 < d" "d < w / 2"
  shows "nat \<lceil>(w / 2) / d\<rceil> < nat \<lceil>w / d\<rceil>"
proof -
  have x2: "2 < w / d" using assms by (simp add: pos_less_divide_eq)
  have "\<lceil>(w / 2) / d\<rceil> < (w / 2) / d + 1" by linarith
  also have "\<dots> = (w / d) / 2 + 1" by simp
  also have "\<dots> \<le> w / d" using x2 by simp
  also have "\<dots> \<le> \<lceil>w / d\<rceil>" by linarith
  finally have "\<lceil>(w / 2) / d\<rceil> < \<lceil>w / d\<rceil>" by linarith
  moreover have "0 < \<lceil>w / d\<rceil>" using x2 by linarith
  ultimately show ?thesis by linarith
qed

definition freshLeaves :: "Node list \<Rightarrow> bool" where
  "freshLeaves cs \<longleftrightarrow> (\<forall>c \<in> set cs. star c = None \<and> children c = [])"

text \<open>
  \<open>filledWith h e cs cs1\<close>: the list \<open>cs1\<close> is \<open>cs\<close> with the first node whose sector holds
  the star \<open>e\<close> turned into a leaf for \<open>e\<close>.
\<close>
fun filledWith :: "Heap \<Rightarrow> addr \<Rightarrow> Node list \<Rightarrow> Node list \<Rightarrow> bool" where
  "filledWith h e [] cs1 \<longleftrightarrow> cs1 = []"
| "filledWith h e (c # cs) cs1 \<longleftrightarrow>
     (if inRange (position (cells h e)) (sector c) then cs1 = Node (sector c) (Some e) [] # cs
      else (\<exists>r. cs1 = c # r \<and> filledWith h e cs r))"

lemma insert_fresh_dom:
  "insertStar_insertIntoChild_dom (Inl (h, n, a)) \<Longrightarrow>
     star n = None \<and> children n = [] \<longrightarrow> insertStar h n a = (h, Node (sector n) (Some a) [])"
  "insertStar_insertIntoChild_dom (Inr (h, cs, a)) \<Longrightarrow>
     freshLeaves cs \<longrightarrow> (\<exists>cs1. insertIntoChild h cs a = (h, cs1) \<and> filledWith h a cs cs1)"
proof (induction rule: insertStar_insertIntoChild.pinduct)
  case (1 h q s cs a)
  show ?case
  proof (intro impI)
    assume "star (Node q s cs) = None \<and> children (Node q s cs) = []"
    then have e: "s = None" "cs = []" by auto
    from "1.hyps"(1) show "insertStar h (Node q s cs) a = (h, Node (sector (Node q s cs)) (Some a) [])"
      unfolding e by (simp add: insertStar.psimps)
  qed
next
  case (2 h a)
  then show ?case by (simp add: insertIntoChild.psimps)
next
  case (3 h child rest a)
  then show ?case
    by (auto simp add: insertIntoChild.psimps freshLeaves_def split: prod.splits)
qed

lemma wf_insertOrder: "wf insertOrder"
  unfolding insertOrder_def by (intro wf_inv_image wf_lex_prod wf_less_than)

lemma separation_zero_iff:
  "separation h e a = 0 \<longleftrightarrow>
     px (position (cells h e)) = px (position (cells h a))
     \<and> py (position (cells h e)) = py (position (cells h a))"
  unfolding separation_def by (auto simp: max_def split: if_splits)

lemma separation_nonneg: "0 \<le> separation h e a"
  unfolding separation_def by simp

lemma inRange_separation:
  assumes "inRange (position (cells h e)) sc" "inRange (position (cells h a)) sc"
  shows "separation h e a < qwidth sc"
  using assms unfolding inRange_def separation_def by (auto simp: max_def abs_if)

lemma splitBounds_fresh: "freshLeaves cs \<Longrightarrow> splitBounds h cs a \<le> 2 * length cs"
  by (induction cs) (auto simp: freshLeaves_def splitBound_def)

lemma internalNodes_fresh: "freshLeaves cs \<Longrightarrow> sum_list (map internalNodes cs) = 0"
proof (induction cs)
  case Nil
  then show ?case by simp
next
  case (Cons c cs)
  then show ?case by (cases c) (auto simp: freshLeaves_def)
qed

lemma internalNodes_filled:
  "filledWith h e cs cs1 \<Longrightarrow> freshLeaves cs \<Longrightarrow> sum_list (map internalNodes cs1) = 0"
proof (induction cs arbitrary: cs1)
  case Nil
  then show ?case by simp
next
  case (Cons c cs)
  have fr: "freshLeaves cs" using Cons.prems(2) by (simp add: freshLeaves_def)
  have c0: "internalNodes c = 0" using Cons.prems(2) by (cases c) (auto simp: freshLeaves_def)
  show ?case
  proof (cases "inRange (position (cells h e)) (sector c)")
    case True
    then show ?thesis using Cons.prems(1) internalNodes_fresh[OF fr] by simp
  next
    case False
    then obtain r where r: "cs1 = c # r" "filledWith h e cs r" using Cons.prems(1) by auto
    then show ?thesis using Cons.IH[OF r(2) fr] c0 by simp
  qed
qed

lemma ten_times_step: "Suc m \<le> n \<Longrightarrow> k = 10 * (1 + m) \<Longrightarrow> k \<le> 10 * (n::nat)"
  by simp

lemma splitBounds_filled:
  assumes "filledWith h e cs cs1" "freshLeaves cs"
    and "\<forall>c \<in> set cs. qwidth (sector c) = w / 2" and "separation h e a \<noteq> 0"
  shows "splitBounds h cs1 a \<le> 2 * length cs + 10 * nat \<lceil>w / separation h e a\<rceil>"
  using assms(1,2,3)
proof (induction cs arbitrary: cs1)
  case Nil
  then show ?case by simp
next
  case (Cons c cs)
  have fr: "freshLeaves cs" using Cons.prems(2) by (simp add: freshLeaves_def)
  have wc: "qwidth (sector c) = w / 2" using Cons.prems(3) by simp
  have pos: "0 < separation h e a" using assms(4) separation_nonneg[of h e a] by linarith
  show ?case
  proof (cases "inRange (position (cells h e)) (sector c)")
    case True
    then have cs1: "cs1 = Node (sector c) (Some e) [] # cs" using Cons.prems(1) by simp
    have "(if inRange (position (cells h a)) (sector c)
            then splitBound h (Node (sector c) (Some e) []) a else 0)
          \<le> 10 * nat \<lceil>w / separation h e a\<rceil>"
    proof (cases "inRange (position (cells h a)) (sector c)")
      case False
      then show ?thesis by simp
    next
      case a_in: True
      have "separation h e a < w / 2" using inRange_separation[OF True a_in] wc by simp
      from ceiling_half_less[OF pos this]
      have "Suc (nat \<lceil>(w / 2) / separation h e a\<rceil>) \<le> nat \<lceil>w / separation h e a\<rceil>"
        by (rule Suc_leI)
      moreover have "splitBound h (Node (sector c) (Some e) []) a
           = 10 * (1 + nat \<lceil>(w / 2) / separation h e a\<rceil>)"
        using assms(4) by (simp add: splitBound_def wc)
      ultimately have "splitBound h (Node (sector c) (Some e) []) a
           \<le> 10 * nat \<lceil>w / separation h e a\<rceil>"
        using ten_times_step by metis
      then show ?thesis using a_in by (simp only: if_True)
    qed
    then show ?thesis using splitBounds_fresh[OF fr, of h a] cs1 by simp
  next
    case False
    then obtain r where r: "cs1 = c # r" "filledWith h e cs r" using Cons.prems(1) by auto
    have "splitBound h c a = 1" using Cons.prems(2) by (simp add: freshLeaves_def splitBound_def)
    then show ?thesis using Cons.IH[OF r(2) fr] Cons.prems(3) r(1) by simp
  qed
qed

lemma freshLeaves_initializeQuadrant: "freshLeaves (initializeQuadrant q)"
  by (simp add: freshLeaves_def initializeQuadrant_def Let_def)

lemma widths_initializeQuadrant:
  "\<forall>c \<in> set (initializeQuadrant q). qwidth (sector c) = qwidth q / 2"
  by (simp add: initializeQuadrant_def Let_def)

lemma length_initializeQuadrant: "length (initializeQuadrant q) = 4"
  by (simp add: initializeQuadrant_def Let_def)

termination insertStar
proof (relation insertOrder, goal_cases)
  case 1
  show ?case by (rule wf_insertOrder)
next
  case (2 h q s cs a x xa y)
  then show ?case by (simp add: insertOrder_def)
next
  case (3 h q s cs a x)
  then obtain e where s: "s = Some e" and cs: "cs = []" by auto
  have "separation h e a \<noteq> 0" using 3(3) s by (simp add: separation_zero_iff)
  then have "splitBound h (Node q s cs) a \<ge> 10" by (simp add: splitBound_def s cs)
  moreover have "splitBounds h (initializeQuadrant q) x \<le> 8"
    using splitBounds_fresh[OF freshLeaves_initializeQuadrant, of h q x]
    by (simp add: length_initializeQuadrant)
  ultimately show ?case
    using internalNodes_fresh[OF freshLeaves_initializeQuadrant, of q]
    by (simp add: insertOrder_def cs)
next
  case (4 h q s cs a x xa xb y)
  then obtain e where s: "s = Some e" and cs: "cs = []" by auto
  have x: "x = e" using 4(4) s by simp
  have sep: "separation h e a \<noteq> 0" using 4(3) s by (simp add: separation_zero_iff)
  from insert_fresh_dom(2)[OF 4(7)] freshLeaves_initializeQuadrant
  obtain cs1 where r: "insertIntoChild h (initializeQuadrant q) x = (h, cs1)"
    and f: "filledWith h x (initializeQuadrant q) cs1" by blast
  have xb: "xb = h" and y: "y = cs1" using 4(5,6) r by auto
  have b: "splitBounds h cs1 a \<le> 8 + 10 * nat \<lceil>qwidth q / separation h e a\<rceil>"
    using splitBounds_filled[OF f[unfolded x] freshLeaves_initializeQuadrant
        widths_initializeQuadrant sep]
    by (simp add: length_initializeQuadrant)
  have "splitBound h (Node q s cs) a = 10 * (1 + nat \<lceil>qwidth q / separation h e a\<rceil>)"
    using sep by (simp add: splitBound_def s cs)
  then show ?case
    using b internalNodes_filled[OF f freshLeaves_initializeQuadrant]
    by (simp add: insertOrder_def xb y cs)
next
  case (5 h child rest a)
  then show ?case by (auto simp: insertOrder_def)
next
  case (6 h child rest a)
  then show ?case by (auto simp: insertOrder_def)
qed

declare insertStar.simps [simp del]

text \<open>Go: \<^verbatim>\<open>QuadTree{root *Node}\<close>.\<close>

record QuadTree =
  root :: Node

fun insertAll :: "Heap \<Rightarrow> Node \<Rightarrow> addr list \<Rightarrow> Heap \<times> Node" where
  "insertAll h t [] = (h, t)"
| "insertAll h t (s # rest) = (let (h', t') = insertStar h t s in insertAll h' t' rest)"

definition GenerateQuadTree :: "Heap \<Rightarrow> Universe \<Rightarrow> Heap \<times> QuadTree" where
  "GenerateQuadTree h currentUniverse =
     (let (h', r) = insertAll h (Node \<lparr>qx = 0, qy = 0, qwidth = width currentUniverse\<rparr> None [])
                      (stars currentUniverse)
      in (h', \<lparr>root = r\<rparr>))"

section \<open>Force traversal\<close>

text \<open>The run-time panics of the Go code that the model keeps as values.\<close>

datatype panic = NilDereference | IndexOutOfRange | MakeSliceLength

definition addPair :: "OrderedPair \<Rightarrow> OrderedPair \<Rightarrow> OrderedPair" where
  "addPair f g = \<lparr>px = px f + px g, py = py f + py g\<rparr>"

text \<open>
  \<^verbatim>\<open>CalculateNetForce\<close>. \<^verbatim>\<open>computeDistance(node.star, currStar)\<close> reads through
  \<^verbatim>\<open>node.star\<close> before any test, so a node without a star is a nil dereference. The loop
  over the children (\<open>childrenForce\<close>) skips the children without a star.
\<close>

fun CalculateNetForce :: "Heap \<Rightarrow> Node \<Rightarrow> addr \<Rightarrow> real \<Rightarrow> panic + OrderedPair"
  and childrenForce :: "Heap \<Rightarrow> Node list \<Rightarrow> addr \<Rightarrow> real \<Rightarrow> OrderedPair \<Rightarrow> panic + OrderedPair"
where
  "CalculateNetForce h (Node q s cs) currStar theta =
     (case s of
        None \<Rightarrow> Inl NilDereference
      | Some n \<Rightarrow>
          (let dis = computeDistance (cells h n) (cells h currStar) in
           if dis = 0 \<or> n = currStar then Inr zeroPair
           else
             (let ratio = qwidth q / dis;
                  force = (if ratio < theta \<or> cs = []
                           then addPair zeroPair
                                  (computeGravitationalForce (cells h n) (cells h currStar) dis)
                           else zeroPair)
              in if ratio \<ge> theta then childrenForce h cs currStar theta force
                 else Inr force)))"
| "childrenForce h [] currStar theta force = Inr force"
| "childrenForce h (child # rest) currStar theta force =
     (if star child \<noteq> None then
        (case CalculateNetForce h child currStar theta of
           Inl e \<Rightarrow> Inl e
         | Inr childForce \<Rightarrow> childrenForce h rest currStar theta (addPair force childForce))
      else childrenForce h rest currStar theta force)"

section \<open>Integrator and driver\<close>

definition copyStars :: "Heap \<Rightarrow> addr \<Rightarrow> Heap \<times> addr" where
  "copyStars h s =
     alloc h \<lparr>position = \<lparr>px = px (position (cells h s)), py = py (position (cells h s))\<rparr>,
              velocity = \<lparr>px = px (velocity (cells h s)), py = py (velocity (cells h s))\<rparr>,
              acceleration = \<lparr>px = px (acceleration (cells h s)),
                              py = py (acceleration (cells h s))\<rparr>,
              mass = mass (cells h s), radius = radius (cells h s),
              red = red (cells h s), green = green (cells h s), blue = blue (cells h s)\<rparr>"

fun copyAll :: "Heap \<Rightarrow> addr list \<Rightarrow> Heap \<times> addr list" where
  "copyAll h [] = (h, [])"
| "copyAll h (s # rest) =
     (let (h1, c) = copyStars h s; (h2, cs) = copyAll h1 rest in (h2, c # cs))"

definition copyUniverse :: "Heap \<Rightarrow> Universe \<Rightarrow> Heap \<times> Universe" where
  "copyUniverse h currentUniverse =
     (let (h', cs) = copyAll h (stars currentUniverse)
      in (h', \<lparr>width = width currentUniverse, stars = cs\<rparr>))"

text \<open>
  The body of the loop of \<^verbatim>\<open>updateUniverse\<close> for the star \<open>s\<close> of the new universe. The
  three assignments go through the same pointer \<open>s\<close>, so \<^verbatim>\<open>UpdateVelocity(*s, ...)\<close> reads
  the acceleration that was just written and \<^verbatim>\<open>UpdatePosition(*s, ...)\<close> reads the position
  that was not yet written.
\<close>

definition updateStar :: "Heap \<Rightarrow> Node \<Rightarrow> addr \<Rightarrow> real \<Rightarrow> real \<Rightarrow> panic + Heap" where
  "updateStar h tree s time theta =
     (let oldAcceleration = acceleration (cells h s);
          oldVelocity = velocity (cells h s)
      in case CalculateNetForce h tree s theta of
           Inl e \<Rightarrow> Inl e
         | Inr netForce \<Rightarrow>
             (let newAcceleration = \<lparr>px = px netForce / mass (cells h s),
                                      py = py netForce / mass (cells h s)\<rparr>;
                  h1 = store h s ((cells h s)\<lparr>acceleration := newAcceleration\<rparr>);
                  h2 = store h1 s ((cells h1 s)\<lparr>velocity :=
                         UpdateVelocity (cells h1 s) oldAcceleration time\<rparr>);
                  h3 = store h2 s ((cells h2 s)\<lparr>position :=
                         UpdatePosition (cells h2 s) oldAcceleration oldVelocity time\<rparr>)
              in Inr h3))"

fun updateStars :: "Heap \<Rightarrow> Node \<Rightarrow> addr list \<Rightarrow> real \<Rightarrow> real \<Rightarrow> panic + Heap" where
  "updateStars h tree [] time theta = Inr h"
| "updateStars h tree (s # rest) time theta =
     (case updateStar h tree s time theta of
        Inl e \<Rightarrow> Inl e
      | Inr h' \<Rightarrow> updateStars h' tree rest time theta)"

definition updateUniverse :: "Heap \<Rightarrow> Universe \<Rightarrow> real \<Rightarrow> real \<Rightarrow> panic + Heap \<times> Universe" where
  "updateUniverse h currentUniverse time theta =
     (let (h1, newUniverse) = copyUniverse h currentUniverse;
          (h2, tree) = GenerateQuadTree h1 currentUniverse
      in case updateStars h2 (root tree) (stars newUniverse) time theta of
           Inl e \<Rightarrow> Inl e
         | Inr h3 \<Rightarrow> Inr (h3, newUniverse))"

text \<open>
  The loop of \<^verbatim>\<open>BarnesHut\<close>, \<open>n\<close> iterations from the universe \<open>prev\<close>: the universes
  written to \<^verbatim>\<open>timePoints[i]\<close>, in increasing \<open>i\<close>.
\<close>

fun generations :: "nat \<Rightarrow> Heap \<Rightarrow> Universe \<Rightarrow> real \<Rightarrow> real \<Rightarrow> panic + Heap \<times> Universe list" where
  "generations 0 h prev time theta = Inr (h, [])"
| "generations (Suc n) h prev time theta =
     (case updateUniverse h prev time theta of
        Inl e \<Rightarrow> Inl e
      | Inr (h1, u) \<Rightarrow>
          (case generations n h1 u time theta of
             Inl e \<Rightarrow> Inl e
           | Inr (h2, us) \<Rightarrow> Inr (h2, u # us)))"

text \<open>
  \<^verbatim>\<open>BarnesHut\<close>. \<open>numGens\<close> is a Go \<^verbatim>\<open>int\<close>, 64 bits wide as on the 64-bit platforms, so
  \<open>numGens + 1\<close> wraps around at the largest \<^verbatim>\<open>int\<close>. \<^verbatim>\<open>make\<close> panics on a negative length
  and \<^verbatim>\<open>timePoints[0]\<close> is out of range for the length zero; the loop
  \<^verbatim>\<open>for i := 1; i < numGens+1; i++\<close> runs \<open>numGens + 1 - 1\<close> times. The store of the model is
  unbounded: running out of memory, in \<^verbatim>\<open>make\<close> or in a copy, is outside the model.
\<close>

definition BarnesHut :: "Heap \<Rightarrow> Universe \<Rightarrow> 64 word \<Rightarrow> real \<Rightarrow> real \<Rightarrow> panic + Heap \<times> Universe list" where
  "BarnesHut h initialUniverse numGens time theta =
     (let n = sint (numGens + 1) in
      if n < 0 then Inl MakeSliceLength
      else if n = 0 then Inl IndexOutOfRange
      else case generations (nat (n - 1)) h initialUniverse time theta of
             Inl e \<Rightarrow> Inl e
           | Inr (h', us) \<Rightarrow> Inr (h', initialUniverse # us))"

section \<open>Concrete stores for the worked inputs\<close>

text \<open>A star at \<open>(x0, y0)\<close> of mass \<open>m\<close>, every other field zero.\<close>

definition mkStar :: "real \<Rightarrow> real \<Rightarrow> real \<Rightarrow> Star" where
  "mkStar x0 y0 m = zeroStar\<lparr>position := \<lparr>px = x0, py = y0\<rparr>, mass := m\<rparr>"

text \<open>The store that holds the given stars at the addresses \<open>0, 1, ...\<close>.\<close>

definition heapOf :: "Star list \<Rightarrow> Heap" where
  "heapOf ss = \<lparr>cells = (\<lambda>a. if a < length ss then ss ! a else zeroStar), nxt = length ss\<rparr>"

text \<open>The force that \<^verbatim>\<open>CalculateNetForce\<close> returns, zero where it panics.\<close>

definition netForce :: "Heap \<Rightarrow> Node \<Rightarrow> addr \<Rightarrow> real \<Rightarrow> OrderedPair" where
  "netForce h n currStar theta =
     (case CalculateNetForce h n currStar theta of Inl e \<Rightarrow> zeroPair | Inr f \<Rightarrow> f)"

fun sumPairs :: "OrderedPair list \<Rightarrow> OrderedPair" where
  "sumPairs [] = zeroPair"
| "sumPairs (f # fs) = addPair f (sumPairs fs)"

section \<open>Newton's third law for the two-body force\<close>



section \<open>The two branches of the traversal\<close>

lemma addPair_zero [simp]: "addPair zeroPair f = f" "addPair f zeroPair = f"
  by (simp_all add: addPair_def zeroPair_def)

lemma addPair_assoc: "addPair (addPair f g) k = addPair f (addPair g k)"
  by (simp add: addPair_def)

lemma traversal_returns:
  "star n \<noteq> None \<Longrightarrow> \<exists>f. CalculateNetForce h n currStar theta = Inr f"
  "\<exists>f'. childrenForce h cs currStar theta force = Inr f'"
proof (induction h n currStar theta and h cs currStar theta force
       rule: CalculateNetForce_childrenForce.induct)
  case (1 h q s cs currStar theta)
  then show ?case by (auto simp: Let_def)
next
  case (2 h currStar theta force)
  then show ?case by simp
next
  case (3 h child rest currStar theta force)
  show ?case
  proof (cases "star child = None")
    case True
    then show ?thesis using 3 by simp
  next
    case False
    then obtain cf where cf: "CalculateNetForce h child currStar theta = Inr cf"
      using 3(1) by blast
    then show ?thesis using False 3(2)[OF False cf] by simp
  qed
qed

lemma childrenForce_sum:
  "childrenForce h cs currStar theta force
     = Inr (addPair force (sumPairs (map (\<lambda>c. netForce h c currStar theta)
                                      (filter (\<lambda>c. star c \<noteq> None) cs))))"
proof (induction cs arbitrary: force)
  case Nil
  then show ?case by simp
next
  case (Cons child rest)
  show ?case
  proof (cases "star child = None")
    case True
    then show ?thesis using Cons by simp
  next
    case False
    then obtain cf where cf: "CalculateNetForce h child currStar theta = Inr cf"
      using traversal_returns(1) by blast
    then have "netForce h child currStar theta = cf" by (simp add: netForce_def)
    then show ?thesis using False cf Cons by (simp add: addPair_assoc)
  qed
qed

text \<open>
  Claim C6. At a node with aggregate \<open>n\<close> at a distance \<open>dis \<noteq> 0\<close> from the query star
  (and \<open>n\<close> not the query star itself), with \<open>r = s / dis\<close>: when \<open>r < theta\<close> or the node
  has no children, the result is exactly the two-body force of the aggregate; when
  \<open>r \<ge> theta\<close> and the node has children, the result is exactly the sum of the results of
  the traversal of the children that carry a star. The result is never the aggregate
  force plus the children's forces.
\<close>

theorem branches_exclusive:
  assumes "dis = computeDistance (cells h n) (cells h currStar)"
    and "dis \<noteq> 0" and "n \<noteq> currStar"
  shows "CalculateNetForce h (Node q (Some n) cs) currStar theta =
     (if qwidth q / dis < theta \<or> cs = []
      then Inr (computeGravitationalForce (cells h n) (cells h currStar) dis)
      else Inr (sumPairs (map (\<lambda>c. netForce h c currStar theta)
                              (filter (\<lambda>c. star c \<noteq> None) cs))))"
  using assms by (auto simp: Let_def childrenForce_sum)

text \<open>
  A root of width 10 whose aggregate (address 3) is the centroid \<open>(5, 4)\<close>, mass 4, of two
  leaves at \<open>(2, 4)\<close> and \<open>(8, 4)\<close>, and a query star at \<open>(5, 0)\<close>: \<open>r = 10 / 4\<close>. With
  \<open>theta = 3\<close> the aggregate alone answers, with \<open>theta = 0.5\<close> the two leaves do.
\<close>

definition exH :: Heap where
  "exH = heapOf [mkStar 2 4 2, mkStar 8 4 2, mkStar 5 0 1, mkStar 5 4 4]"

definition exT :: Node where
  "exT = Node \<lparr>qx = 0, qy = 0, qwidth = 10\<rparr> (Some 3)
      [Node \<lparr>qx = 0, qy = 5, qwidth = 5\<rparr> None [],
       Node \<lparr>qx = 5, qy = 5, qwidth = 5\<rparr> None [],
       Node \<lparr>qx = 0, qy = 0, qwidth = 5\<rparr> (Some 0) [],
       Node \<lparr>qx = 5, qy = 0, qwidth = 5\<rparr> (Some 1) []]"

lemma exDist: "computeDistance (cells exH 3) (cells exH 2) = 4"
  by (simp add: exH_def heapOf_def mkStar_def computeDistance_def)

theorem branches_exclusive_witness:
  "CalculateNetForce exH exT 2 3 = Inr \<lparr>px = 0, py = G / 4\<rparr>
   \<and> CalculateNetForce exH exT 2 0.5 = Inr \<lparr>px = 0, py = 16 * G / 125\<rparr>"
proof -
  have d: "(4::real) = computeDistance (cells exH 3) (cells exH 2)" by (simp add: exDist)
  have nz: "(4::real) \<noteq> 0" by simp
  have ne: "(3::nat) \<noteq> 2" by simp
  note far = branches_exclusive[OF d nz ne, of "\<lparr>qx = 0, qy = 0, qwidth = 10\<rparr>" "children exT" 3]
  note near = branches_exclusive[OF d nz ne, of "\<lparr>qx = 0, qy = 0, qwidth = 10\<rparr>" "children exT" "0.5"]
  have t: "exT = Node \<lparr>qx = 0, qy = 0, qwidth = 10\<rparr> (Some 3) (children exT)"
    by (simp add: exT_def)
  have "CalculateNetForce exH exT 2 3 = Inr \<lparr>px = 0, py = G / 4\<rparr>"
    apply (subst t) apply (subst far)
    by (simp add: exH_def exT_def heapOf_def mkStar_def computeGravitationalForce_def)
  moreover have "CalculateNetForce exH exT 2 0.5 = Inr \<lparr>px = 0, py = 16 * G / 125\<rparr>"
    apply (subst t) apply (subst near)
    by (simp add: exH_def exT_def heapOf_def mkStar_def computeGravitationalForce_def
        netForce_def computeDistance_def addPair_def zeroPair_def Let_def)
  ultimately show ?thesis by simp
qed


section \<open>The centre of the root square\<close>

text \<open>
  Claim C5, counterexample. In the tree of the universe of width 10 with a star at
  \<open>(5, 5)\<close> (address 0) and a star at \<open>(1, 1)\<close> (address 1), the star at the centre sits in
  the NE child (index 1) of the root; the SW child (index 2) holds the other star.
\<close>

theorem center_not_in_SW:
  "map star (children (root (snd (GenerateQuadTree (heapOf [mkStar 5 5 1, mkStar 1 1 1])
     \<lparr>width = 10, stars = [0, 1]\<rparr>)))) = [None, Some 0, Some 1, None]"
  by (simp add: GenerateQuadTree_def heapOf_def mkStar_def zeroStar_def zeroPair_def
      insertStar.simps initializeQuadrant_def Let_def inRange_def calculateCenterOfMass_def
      alloc_def)

text \<open>
  Claim C5, amended. For a positive width \<open>w\<close>, the only child of the root whose sector
  holds the point \<open>(w/2, w/2)\<close> is the NE child: \<^verbatim>\<open>inRange\<close> is closed on the low side, and
  \<open>w/2\<close> is the low corner of the NE sector on both axes. \<^verbatim>\<open>insertIntoChild\<close> on the fresh
  children of the root puts the star into the NE child and leaves NW, SW and SE empty.
\<close>

theorem center_goes_to_NE:
  assumes "0 < w" and "position (cells h a) = \<lparr>px = w / 2, py = w / 2\<rparr>"
  shows "map (\<lambda>c. inRange (position (cells h a)) (sector c))
           (initializeQuadrant \<lparr>qx = 0, qy = 0, qwidth = w\<rparr>) = [False, True, False, False]
       \<and> insertIntoChild h (initializeQuadrant \<lparr>qx = 0, qy = 0, qwidth = w\<rparr>) a
         = (h, (initializeQuadrant \<lparr>qx = 0, qy = 0, qwidth = w\<rparr>)
                 [1 := Node \<lparr>qx = w / 2, qy = w / 2, qwidth = w / 2\<rparr> (Some a) []])"
  using assms by (simp add: initializeQuadrant_def Let_def inRange_def insertStar.simps)

theorem center_goes_to_NE_witness:
  "map star (snd (insertIntoChild (heapOf [mkStar 5 5 1])
       (initializeQuadrant \<lparr>qx = 0, qy = 0, qwidth = 10\<rparr>) 0))
     = [None, Some 0, None, None]"
proof -
  have w: "(0::real) < 10" by simp
  have p: "position (cells (heapOf [mkStar 5 5 1]) 0) = \<lparr>px = 10 / 2, py = 10 / 2\<rparr>"
    by (simp add: heapOf_def mkStar_def)
  have r: "insertIntoChild (heapOf [mkStar 5 5 1])
              (initializeQuadrant \<lparr>qx = 0, qy = 0, qwidth = 10\<rparr>) 0
       = (heapOf [mkStar 5 5 1], (initializeQuadrant \<lparr>qx = 0, qy = 0, qwidth = 10\<rparr>)
            [1 := Node \<lparr>qx = 10 / 2, qy = 10 / 2, qwidth = 10 / 2\<rparr> (Some 0) []])"
    using center_goes_to_NE[OF w p] by (rule conjunct2)
  show ?thesis
    unfolding r by (simp add: initializeQuadrant_def Let_def)
qed

section \<open>Coincident stars\<close>

lemma insertStar_coincident:
  assumes "px (position (cells h e)) = px (position (cells h a))"
          "py (position (cells h e)) = py (position (cells h a))"
  shows "insertStar h (Node q (Some e) []) a
     = (store h e ((cells h e)\<lparr>mass := mass (cells h a)\<rparr>), Node q (Some e) [])"
  using assms by (simp add: insertStar.simps)

text \<open>
  Claim C4, the code at the input of the claim. Two stars at \<open>(5, 5)\<close> of masses 3 and 7 in
  a universe of width 10: the root is a single leaf that holds the first star, at
  \<open>(5, 5)\<close>, and the mass of that star is 7 afterwards, the mass of the newcomer, not the
  sum 10. The third branch of \<^verbatim>\<open>insertStar\<close> assigns (\<^verbatim>\<open>node.star.mass = star.mass\<close>)
  where the aggregate update of the second branch adds.
\<close>

theorem coincident_mass_overwritten:
  "(let (h', t) = GenerateQuadTree (heapOf [mkStar 5 5 3, mkStar 5 5 7])
                    \<lparr>width = 10, stars = [0, 1]\<rparr>
    in (star (root t), children (root t), mass (cells h' 0), position (cells h' 0)))
   = (Some 0, [], 7, \<lparr>px = 5, py = 5\<rparr>)"
  by (simp add: GenerateQuadTree_def heapOf_def mkStar_def zeroStar_def zeroPair_def
      insertStar.simps store_def)

section \<open>The driver\<close>

lemma generations_empty:
  "generations n h \<lparr>width = w, stars = []\<rparr> time theta
     = Inr (h, replicate n \<lparr>width = w, stars = []\<rparr>)"
  by (induction n) (simp_all add: updateUniverse_def copyUniverse_def GenerateQuadTree_def)

text \<open>
  \<open>chained h prev us dt theta h'\<close>: each universe of \<open>us\<close> is the result of one step from its
  predecessor, the first one from \<open>prev\<close>; the steps start in the store \<open>h\<close> and end in \<open>h'\<close>.
\<close>

fun chained :: "Heap \<Rightarrow> Universe \<Rightarrow> Universe list \<Rightarrow> real \<Rightarrow> real \<Rightarrow> Heap \<Rightarrow> bool" where
  "chained h prev [] dt theta h' \<longleftrightarrow> h' = h"
| "chained h prev (u # us) dt theta h' \<longleftrightarrow>
     (case updateUniverse h prev dt theta of
        Inl e \<Rightarrow> False
      | Inr (h1, u1) \<Rightarrow> u1 = u \<and> chained h1 u us dt theta h')"

lemma generations_chained:
  "generations n h prev dt theta = Inr (h', us) \<Longrightarrow> length us = n \<and> chained h prev us dt theta h'"
proof (induction n arbitrary: h prev us)
  case 0
  then show ?case by simp
next
  case (Suc n)
  from Suc.prems obtain h1 u rest where
    u: "updateUniverse h prev dt theta = Inr (h1, u)"
    and g: "generations n h1 u dt theta = Inr (h', rest)" and us: "us = u # rest"
    by (auto split: sum.splits)
  from Suc.IH[OF g] show ?case using u us by simp
qed

text \<open>The successor of a 64-bit \<^verbatim>\<open>int\<close> below the largest one does not wrap.\<close>

lemma sint_succ:
  fixes numGens :: "64 word"
  assumes "sint numGens < 2 ^ 63 - 1"
  shows "sint (numGens + 1) = sint numGens + 1"
proof -
  have lo: "- (2 ^ 63) \<le> sint numGens" using sint_ge[of numGens] by simp
  have "sint (numGens + 1) = signed_take_bit 63 (sint numGens + 1)"
    by (simp add: sint_word_ariths word_size)
  also have "\<dots> = sint numGens + 1"
    by (rule signed_take_bit_int_eq_self) (use lo assms in simp_all)
  finally show ?thesis .
qed

text \<open>
  Where \<^verbatim>\<open>BarnesHut\<close> returns, for a non-negative \<open>numGens\<close>, it returns \<open>numGens + 1\<close>
  universes, the first one the initial universe and each further one a step from its
  predecessor.
\<close>

lemma BarnesHut_returns_chain:
  assumes "0 \<le> sint numGens" and "BarnesHut h u numGens dt theta = Inr (h', us)"
  shows "length us = nat (sint numGens) + 1 \<and> hd us = u \<and> chained h u (tl us) dt theta h'"
proof -
  have lt: "sint numGens < 2 ^ 63 - 1"
  proof (rule ccontr)
    assume "\<not> sint numGens < 2 ^ 63 - 1"
    moreover have "sint numGens < 2 ^ 63" using sint_lt[of numGens] by simp
    ultimately have m: "sint numGens = 9223372036854775807" by simp
    have "sint (numGens + 1) = signed_take_bit 63 (sint numGens + 1)"
      by (simp add: sint_word_ariths word_size)
    then have "sint (numGens + 1) < 0" unfolding m by simp
    then show False using assms(2) by (simp add: BarnesHut_def)
  qed
  note n = sint_succ[OF lt]
  from assms obtain rest where g: "generations (nat (sint numGens)) h u dt theta = Inr (h', rest)"
    and us: "us = u # rest"
    by (auto simp: BarnesHut_def n Let_def split: sum.splits if_splits)
  from generations_chained[OF g] show ?thesis using us by simp
qed

text \<open>
  Claim C9, amended. On a universe without stars and a non-negative \<open>numGens\<close> below the
  largest \<^verbatim>\<open>int\<close>, \<^verbatim>\<open>BarnesHut\<close> returns, without a panic, \<open>numGens + 1\<close> universes, each of
  the width of the input and with an empty list of stars; the store is unchanged.
\<close>

theorem empty_universe_snapshots:
  "0 \<le> sint numGens \<Longrightarrow> sint numGens < 2 ^ 63 - 1 \<Longrightarrow>
   BarnesHut h \<lparr>width = w, stars = []\<rparr> numGens time theta
     = Inr (h, replicate (nat (sint numGens) + 1) \<lparr>width = w, stars = []\<rparr>)"
  by (simp add: BarnesHut_def generations_empty sint_succ Let_def)

text \<open>
  Claim C9, counterexample. For \<open>numGens = 2\<^sup>6\<^sup>3 - 1\<close>, the largest \<^verbatim>\<open>int\<close>, the length
  \<open>numGens + 1\<close> wraps around to \<open>- 2\<^sup>6\<^sup>3\<close> and \<^verbatim>\<open>make\<close> panics: on the empty universe
  \<^verbatim>\<open>BarnesHut\<close> returns nothing for this non-negative \<open>numGens\<close>.
\<close>

theorem empty_universe_panics_at_max:
  "0 \<le> sint (9223372036854775807 :: 64 word)
   \<and> BarnesHut (heapOf []) \<lparr>width = 10, stars = []\<rparr> 9223372036854775807 1 0.5
       = Inl MakeSliceLength"
  by (simp add: BarnesHut_def)

theorem empty_universe_snapshots_witness:
  "BarnesHut (heapOf []) \<lparr>width = 10, stars = []\<rparr> 2 1 0.5
     = Inr (heapOf [], [\<lparr>width = 10, stars = []\<rparr>, \<lparr>width = 10, stars = []\<rparr>,
                        \<lparr>width = 10, stars = []\<rparr>])"
proof -
  have n: "0 \<le> sint (2 :: 64 word)" "sint (2 :: 64 word) < 2 ^ 63 - 1" by simp_all
  show ?thesis
    using empty_universe_snapshots[OF n, of "heapOf []" 10 1 "0.5"]
    by (simp add: numeral_3_eq_3)
qed

text \<open>
  Claim C7, the code at a failing input. A universe of width 10 whose two stars, at
  \<open>(20, 20)\<close> and \<open>(30, 30)\<close>, lie outside the root square: the first star is stored in the
  root, the second splits the root, no child holds either star, and
  \<^verbatim>\<open>calculateCenterOfMass\<close> leaves \<^verbatim>\<open>node.star\<close> nil. The first force query of the first
  step reads through that nil pointer, so \<^verbatim>\<open>BarnesHut\<close> panics instead of returning two
  universes.
\<close>

theorem BarnesHut_panics_outside_root:
  "BarnesHut (heapOf [mkStar 20 20 1, mkStar 30 30 1]) \<lparr>width = 10, stars = [0, 1]\<rparr> 1 1 0.5
     = Inl NilDereference"
  by (simp add: BarnesHut_def updateUniverse_def copyUniverse_def copyStars_def alloc_def
      GenerateQuadTree_def heapOf_def mkStar_def zeroStar_def zeroPair_def
      insertStar.simps store_def initializeQuadrant_def Let_def inRange_def
      calculateCenterOfMass_def updateStar_def)

section \<open>The stars of a tree and the frame of an insertion\<close>

text \<open>
  The stars that the leaves of a tree point to, and the aggregate stars of its internal
  nodes (the nodes with children).
\<close>

fun leafStars :: "Node \<Rightarrow> addr list" where
  "leafStars (Node q s cs) =
     (if cs = [] then (case s of None \<Rightarrow> [] | Some e \<Rightarrow> [e]) else concat (map leafStars cs))"

fun aggregates :: "Node \<Rightarrow> addr list" where
  "aggregates (Node q s cs) =
     (if cs = [] then []
      else (case s of None \<Rightarrow> [] | Some d \<Rightarrow> [d]) @ concat (map aggregates cs))"

lemma nxt_alloc [simp]: "nxt (fst (alloc h s)) = Suc (nxt h)" "snd (alloc h s) = nxt h"
  by (simp_all add: alloc_def)

lemma cells_alloc [simp]: "cells (fst (alloc h s)) = (cells h)(nxt h := s)"
  by (simp add: alloc_def)

lemma nxt_store [simp]: "nxt (store h a s) = nxt h"
  by (simp add: store_def)

lemma cells_store [simp]: "cells (store h a s) = (cells h)(a := s)"
  by (simp add: store_def)

subsection \<open>The four branches of \<^verbatim>\<open>insertStar\<close>\<close>

lemma insertStar_empty: "insertStar h (Node q None []) a = (h, Node q (Some a) [])"
  by (simp add: insertStar.simps)

lemma insertStar_internal:
  "cs \<noteq> [] \<Longrightarrow> insertStar h (Node q s cs) a =
     (let (h1, s1) = updateCenterOfMass h s a;
          (h2, cs2) = insertIntoChild h1 cs a
      in (h2, Node q s1 cs2))"
  by (simp add: insertStar.simps)

lemma insertStar_split:
  "\<not> (px (position (cells h e)) = px (position (cells h a))
       \<and> py (position (cells h e)) = py (position (cells h a))) \<Longrightarrow>
   insertStar h (Node q (Some e) []) a =
     (let (h1, cs1) = insertIntoChild h (initializeQuadrant q) e;
          (h2, cs2) = insertIntoChild h1 cs1 a;
          (h3, s3) = calculateCenterOfMass h2 None cs2
      in (h3, Node q s3 cs2))"
  by (auto simp add: insertStar.simps)

lemma insertIntoChild_fresh:
  "freshLeaves cs \<Longrightarrow> \<exists>cs1. insertIntoChild h cs a = (h, cs1) \<and> filledWith h a cs cs1"
proof (induction cs)
  case Nil
  then show ?case by simp
next
  case (Cons c cs)
  have "star c = None" "children c = []" using Cons.prems by (simp_all add: freshLeaves_def)
  then have c: "c = Node (sector c) None []"
    by (metis Node.collapse)
  have fr: "freshLeaves cs" using Cons.prems by (simp add: freshLeaves_def)
  show ?case
  proof (cases "inRange (position (cells h a)) (sector c)")
    case True
    then show ?thesis using insertStar_empty[of h "sector c" a] c by (simp split: prod.splits)
  next
    case False
    then show ?thesis using Cons.IH[OF fr] by auto
  qed
qed

lemma coincident_iff:
  "(px (p::OrderedPair) = px p' \<and> py p = py p') \<longleftrightarrow> p = p'"
  by auto

text \<open>
  Induction over an insertion, one case per branch. In the splitting branch the existing
  star has already been put into a fresh child (\<open>filledWith\<close>), without a change of the
  store.
\<close>

lemma insert_induct [case_names empty internal coincident split nil here there]:
  assumes empty: "\<And>h q a. P h (Node q None []) a"
    and internal: "\<And>h q s cs a h1 s1.
        cs \<noteq> [] \<Longrightarrow> updateCenterOfMass h s a = (h1, s1) \<Longrightarrow> Q h1 cs a \<Longrightarrow> P h (Node q s cs) a"
    and coincident: "\<And>h q e a.
        position (cells h e) = position (cells h a) \<Longrightarrow> P h (Node q (Some e) []) a"
    and split: "\<And>h q e a cs1.
        position (cells h e) \<noteq> position (cells h a) \<Longrightarrow>
        insertIntoChild h (initializeQuadrant q) e = (h, cs1) \<Longrightarrow>
        filledWith h e (initializeQuadrant q) cs1 \<Longrightarrow>
        Q h cs1 a \<Longrightarrow> P h (Node q (Some e) []) a"
    and nil: "\<And>h a. Q h [] a"
    and here: "\<And>h c rest a.
        inRange (position (cells h a)) (sector c) \<Longrightarrow> P h c a \<Longrightarrow> Q h (c # rest) a"
    and there: "\<And>h c rest a.
        \<not> inRange (position (cells h a)) (sector c) \<Longrightarrow> Q h rest a \<Longrightarrow> Q h (c # rest) a"
  shows "P h t a" and "Q h cs a"
proof (induction h t a and h cs a rule: insertStar_insertIntoChild.induct)
  case (1 h q s cs a)
  show ?case
  proof (cases "cs = []")
    case leaf: True
    show ?thesis
    proof (cases s)
      case None
      then show ?thesis using leaf empty by simp
    next
      case (Some e)
      show ?thesis
      proof (cases "position (cells h e) = position (cells h a)")
        case True
        then show ?thesis using coincident leaf Some by simp
      next
        case False
        then have ne: "\<not> (px (position (cells h (the s))) = px (position (cells h a))
            \<and> py (position (cells h (the s))) = py (position (cells h a)))"
          using Some by (simp add: coincident_iff)
        have c1: "\<not> (s = None \<and> cs = [])" and c2: "\<not> cs \<noteq> []" using Some leaf by simp_all
        obtain cs1 where i1: "insertIntoChild h (initializeQuadrant q) e = (h, cs1)"
          and f: "filledWith h e (initializeQuadrant q) cs1"
          using insertIntoChild_fresh[OF freshLeaves_initializeQuadrant] by blast
        have "Q h cs1 a"
          using 1(3)[OF c1 c2 ne refl refl] i1 Some by simp
        then show ?thesis using split[OF False i1 f] leaf Some by simp
      qed
    qed
  next
    case False
    obtain h1 s1 where u: "updateCenterOfMass h s a = (h1, s1)" by force
    have "Q h1 cs a" using 1(1)[OF _ False refl u[symmetric]] False by simp
    then show ?thesis using internal[OF False u] by simp
  qed
next
  case (2 h a)
  then show ?case by (rule nil)
next
  case (3 h child rest a)
  then show ?case using here there by blast
qed

definition leafStarsL :: "Node list \<Rightarrow> addr list" where
  "leafStarsL cs = concat (map leafStars cs)"

definition aggregatesL :: "Node list \<Rightarrow> addr list" where
  "aggregatesL cs = concat (map aggregates cs)"

lemma leafStarsL_simps [simp]:
  "leafStarsL [] = []" "leafStarsL (c # cs) = leafStars c @ leafStarsL cs"
  by (simp_all add: leafStarsL_def)

lemma aggregatesL_simps [simp]:
  "aggregatesL [] = []" "aggregatesL (c # cs) = aggregates c @ aggregatesL cs"
  by (simp_all add: aggregatesL_def)

lemma leafStars_Node:
  "leafStars (Node q s cs) =
     (if cs = [] then (case s of None \<Rightarrow> [] | Some e \<Rightarrow> [e]) else leafStarsL cs)"
  by (simp add: leafStarsL_def)

lemma aggregates_Node:
  "aggregates (Node q s cs) =
     (if cs = [] then [] else (case s of None \<Rightarrow> [] | Some d \<Rightarrow> [d]) @ aggregatesL cs)"
  by (simp add: aggregatesL_def)

declare leafStars.simps [simp del] aggregates.simps [simp del]

subsection \<open>What an insertion reads and writes\<close>

text \<open>
  \<open>insertPost h a L A h' L' A'\<close>: an insertion of the star \<open>a\<close> that starts in the store \<open>h\<close>
  on a tree with leaf stars \<open>L\<close> and aggregates \<open>A\<close> and ends in \<open>h'\<close> with \<open>L'\<close> and \<open>A'\<close>.
  New aggregates are fresh addresses; a cell that is not an aggregate is unchanged, or it
  is a leaf star at the position of \<open>a\<close> and its mass is now the mass of \<open>a\<close>.
\<close>

definition insertPost ::
  "Heap \<Rightarrow> addr \<Rightarrow> addr set \<Rightarrow> addr set \<Rightarrow> Heap \<Rightarrow> addr set \<Rightarrow> addr set \<Rightarrow> bool" where
  "insertPost h a L A h' L' A' \<longleftrightarrow>
     nxt h \<le> nxt h' \<and> L' \<subseteq> insert a L \<and> A' \<subseteq> A \<union> {nxt h..<nxt h'}
     \<and> (\<forall>x<nxt h. x \<notin> A \<longrightarrow>
           cells h' x = cells h x
           \<or> (x \<in> L \<and> position (cells h x) = position (cells h a)
               \<and> cells h' x = (cells h x)\<lparr>mass := mass (cells h a)\<rparr>))"

lemma insertPost_pre:
  assumes post: "insertPost h1 a L A h2 L' A'"
    and n: "nxt h \<le> nxt h1"
    and same: "\<forall>x<nxt h. x \<notin> W \<longrightarrow> cells h1 x = cells h x"
    and a: "a < nxt h" "a \<notin> W"
    and B: "B \<subseteq> W \<union> {nxt h..<nxt h2}"
  shows "insertPost h a L (W \<union> A) h2 L' (B \<union> A')"
  unfolding insertPost_def
proof (intro conjI allI impI)
  show "nxt h \<le> nxt h2" using post n by (simp add: insertPost_def)
  show "L' \<subseteq> insert a L" using post by (simp add: insertPost_def)
  have "A' \<subseteq> A \<union> {nxt h1..<nxt h2}" using post by (simp add: insertPost_def)
  then show "B \<union> A' \<subseteq> W \<union> A \<union> {nxt h..<nxt h2}" using B n by auto
next
  fix x assume x: "x < nxt h" "x \<notin> W \<union> A"
  have cx: "cells h1 x = cells h x" and ca: "cells h1 a = cells h a"
    using same x a by auto
  have "x < nxt h1" "x \<notin> A" using x n by auto
  then have "cells h2 x = cells h1 x
           \<or> (x \<in> L \<and> position (cells h1 x) = position (cells h1 a)
               \<and> cells h2 x = (cells h1 x)\<lparr>mass := mass (cells h1 a)\<rparr>)"
    using post by (simp add: insertPost_def)
  then show "cells h2 x = cells h x
           \<or> (x \<in> L \<and> position (cells h x) = position (cells h a)
               \<and> cells h2 x = (cells h x)\<lparr>mass := mass (cells h a)\<rparr>)"
    by (simp add: cx ca)
qed

lemma insertPost_then:
  assumes post: "insertPost h a L A h2 L' A'"
    and n: "nxt h2 \<le> nxt h3"
    and same: "\<forall>x<nxt h2. cells h3 x = cells h2 x"
    and B: "B \<subseteq> {nxt h2..<nxt h3}"
  shows "insertPost h a L A h3 L' (B \<union> A')"
  unfolding insertPost_def
proof (intro conjI allI impI)
  have n2: "nxt h \<le> nxt h2" using post by (simp add: insertPost_def)
  then show "nxt h \<le> nxt h3" using n by simp
  show "L' \<subseteq> insert a L" using post by (simp add: insertPost_def)
  have "A' \<subseteq> A \<union> {nxt h..<nxt h2}" using post by (simp add: insertPost_def)
  then show "B \<union> A' \<subseteq> A \<union> {nxt h..<nxt h3}" using B n n2 by auto
next
  fix x assume x: "x < nxt h" "x \<notin> A"
  have n2: "nxt h \<le> nxt h2" using post by (simp add: insertPost_def)
  have "cells h3 x = cells h2 x" using same x n2 by simp
  moreover have "cells h2 x = cells h x
           \<or> (x \<in> L \<and> position (cells h x) = position (cells h a)
               \<and> cells h2 x = (cells h x)\<lparr>mass := mass (cells h a)\<rparr>)"
    using post x by (simp add: insertPost_def)
  ultimately show "cells h3 x = cells h x
           \<or> (x \<in> L \<and> position (cells h x) = position (cells h a)
               \<and> cells h3 x = (cells h x)\<lparr>mass := mass (cells h a)\<rparr>)"
    by simp
qed

lemma insertPost_frame:
  assumes "insertPost h a L A h' L' A'"
  shows "insertPost h a (L \<union> M) (A \<union> C) h' (L' \<union> M) (A' \<union> C)"
  using assms unfolding insertPost_def by (intro conjI; blast)

lemma insertPost_frame_left:
  assumes "insertPost h a L A h' L' A'"
  shows "insertPost h a (M \<union> L) (C \<union> A) h' (M \<union> L') (C \<union> A')"
  using assms unfolding insertPost_def by (intro conjI; blast)

lemma updateCenterOfMass_frame:
  assumes "updateCenterOfMass h s a = (h1, s1)"
  shows "nxt h \<le> nxt h1 \<and> set_option s1 \<subseteq> set_option s \<union> {nxt h..<nxt h1}
       \<and> (\<forall>x<nxt h. x \<notin> set_option s \<longrightarrow> cells h1 x = cells h x)"
  using assms
  by (auto simp: updateCenterOfMass_def alloc_def store_def Let_def
      split: option.splits if_splits)

lemma calculateCenterOfMass_frame:
  assumes "calculateCenterOfMass h None cs = (h', s')"
  shows "nxt h \<le> nxt h' \<and> set_option s' \<subseteq> {nxt h..<nxt h'}
       \<and> (\<forall>x<nxt h. cells h' x = cells h x)"
  using assms
  by (auto simp: calculateCenterOfMass_def alloc_def Let_def split: if_splits prod.splits)

lemma filledWith_leaves:
  "filledWith h e cs cs1 \<Longrightarrow> freshLeaves cs \<Longrightarrow>
     aggregatesL cs1 = [] \<and> set (leafStarsL cs1) \<subseteq> {e} \<and> map sector cs1 = map sector cs"
proof (induction cs arbitrary: cs1)
  case Nil
  then show ?case by simp
next
  case (Cons c cs)
  have fr: "freshLeaves cs" using Cons.prems(2) by (simp add: freshLeaves_def)
  have "star c = None" "children c = []" using Cons.prems(2) by (simp_all add: freshLeaves_def)
  then have c: "c = Node (sector c) None []" by (metis Node.collapse)
  have lc: "leafStars c = []" "aggregates c = []"
    by (subst c, simp add: leafStars_Node aggregates_Node)+
  have frl: "aggregatesL cs = [] \<and> leafStarsL cs = []" using fr
  proof (induction cs)
    case Nil
    then show ?case by simp
  next
    case (Cons d ds)
    have "star d = None" "children d = []" using Cons.prems by (simp_all add: freshLeaves_def)
    then have d: "d = Node (sector d) None []" by (metis Node.collapse)
    have "leafStars d = []" "aggregates d = []"
      by (subst d, simp add: leafStars_Node aggregates_Node)+
    then show ?case using Cons by (simp add: freshLeaves_def)
  qed
  show ?case
  proof (cases "inRange (position (cells h e)) (sector c)")
    case True
    then show ?thesis using Cons.prems(1) frl by (simp add: leafStars_Node aggregates_Node)
  next
    case False
    then obtain r where r: "cs1 = c # r" "filledWith h e cs r" using Cons.prems(1) by auto
    then show ?thesis using Cons.IH[OF r(2) fr] lc by simp
  qed
qed

lemma insert_frame:
  "a < nxt h \<Longrightarrow> a \<notin> set (aggregates t) \<Longrightarrow>
     (case insertStar h t a of (h', t') \<Rightarrow>
        sector t' = sector t \<and> (children t \<noteq> [] \<longrightarrow> children t' \<noteq> [])
        \<and> insertPost h a (set (leafStars t)) (set (aggregates t)) h'
              (set (leafStars t')) (set (aggregates t')))"
  "a < nxt h \<Longrightarrow> a \<notin> set (aggregatesL cs) \<Longrightarrow>
     (case insertIntoChild h cs a of (h', cs') \<Rightarrow>
        map sector cs' = map sector cs
        \<and> insertPost h a (set (leafStarsL cs)) (set (aggregatesL cs)) h'
              (set (leafStarsL cs')) (set (aggregatesL cs')))"
proof (induction h t a and h cs a rule: insert_induct)
  case (empty h q a)
  then show ?case
    by (simp add: insertStar_empty insertPost_def leafStars_Node aggregates_Node)
next
  case (internal h q s cs a h1 s1)
  obtain h2 cs2 where i: "insertIntoChild h1 cs a = (h2, cs2)" by force
  have r: "insertStar h (Node q s cs) a = (h2, Node q s1 cs2)"
    using internal(1,2) i by (simp add: insertStar_internal)
  have an: "a \<notin> set (aggregatesL cs)" "a \<notin> set_option s"
    using internal(1,5) by (auto simp: aggregates_Node)
  from updateCenterOfMass_frame[OF internal(2)]
  have n1: "nxt h \<le> nxt h1"
    and s1: "set_option s1 \<subseteq> set_option s \<union> {nxt h..<nxt h1}"
    and same: "\<forall>x<nxt h. x \<notin> set_option s \<longrightarrow> cells h1 x = cells h x"
    by simp_all
  have "a < nxt h1" using internal(4) n1 by simp
  from internal(3)[OF this an(1)] i
  have sec: "map sector cs2 = map sector cs"
    and post: "insertPost h1 a (set (leafStarsL cs)) (set (aggregatesL cs)) h2
                 (set (leafStarsL cs2)) (set (aggregatesL cs2))"
    by simp_all
  have ne: "cs2 \<noteq> []" using sec internal(1) by auto
  have n2: "nxt h1 \<le> nxt h2" using post by (simp add: insertPost_def)
  have "set_option s1 \<subseteq> set_option s \<union> {nxt h..<nxt h2}" using s1 n2 by auto
  from insertPost_pre[OF post n1 same internal(4) an(2) this]
  have "insertPost h a (set (leafStarsL cs)) (set (aggregates (Node q s cs))) h2
          (set (leafStarsL cs2)) (set (aggregates (Node q s1 cs2)))"
    using internal(1) ne by (cases s; cases s1) (simp_all add: aggregates_Node)
  then show ?case using r sec ne internal(1) by (simp add: leafStars_Node)
next
  case (coincident h q e a)
  then show ?case
    by (simp add: insertStar_coincident insertPost_def leafStars_Node aggregates_Node)
next
  case (split h q e a cs1)
  obtain h2 cs2 where i: "insertIntoChild h cs1 a = (h2, cs2)" by force
  obtain h3 s3 where c: "calculateCenterOfMass h2 None cs2 = (h3, s3)" by force
  have ne': "\<not> (px (position (cells h e)) = px (position (cells h a))
       \<and> py (position (cells h e)) = py (position (cells h a)))"
    using split(1) by (simp add: coincident_iff)
  have r: "insertStar h (Node q (Some e) []) a = (h3, Node q s3 cs2)"
    using insertStar_split[OF ne'] split(2) i c by simp
  from filledWith_leaves[OF split(3) freshLeaves_initializeQuadrant]
  have l1: "aggregatesL cs1 = []" "set (leafStarsL cs1) \<subseteq> {e}"
    "map sector cs1 = map sector (initializeQuadrant q)" by simp_all
  from split(4)[OF split(5)] l1(1) i
  have sec: "map sector cs2 = map sector cs1"
    and post: "insertPost h a (set (leafStarsL cs1)) {} h2 (set (leafStarsL cs2))
                 (set (aggregatesL cs2))"
    by simp_all
  have ne: "cs2 \<noteq> []" using sec l1(3) by (auto simp: initializeQuadrant_def Let_def)
  from calculateCenterOfMass_frame[OF c]
  have n3: "nxt h2 \<le> nxt h3" and s3: "set_option s3 \<subseteq> {nxt h2..<nxt h3}"
    and same: "\<forall>x<nxt h2. cells h3 x = cells h2 x"
    by simp_all
  have "insertPost h a (set (leafStarsL cs1)) {} h3 (set (leafStarsL cs2))
          (set_option s3 \<union> set (aggregatesL cs2))"
    by (rule insertPost_then[OF post n3 same s3])
  then have "insertPost h a {e} {} h3 (set (leafStarsL cs2))
          (set_option s3 \<union> set (aggregatesL cs2))"
    using l1(2) unfolding insertPost_def by (intro conjI; blast)
  then show ?case using r ne
    by (cases s3) (simp_all add: leafStars_Node aggregates_Node)
next
  case (nil h a)
  then show ?case by (simp add: insertPost_def)
next
  case (here h c rest a)
  obtain h' c' where i: "insertStar h c a = (h', c')" by force
  have "a \<notin> set (aggregates c)" using here(4) by simp
  from here(2)[OF here(3) this] i
  have "sector c' = sector c"
    "insertPost h a (set (leafStars c)) (set (aggregates c)) h'
       (set (leafStars c')) (set (aggregates c'))"
    by simp_all
  then show ?case
    using here(1) i insertPost_frame[of h a _ _ h' _ _ "set (leafStarsL rest)" "set (aggregatesL rest)"]
    by simp
next
  case (there h c rest a)
  obtain h' rest' where i: "insertIntoChild h rest a = (h', rest')" by force
  have "a \<notin> set (aggregatesL rest)" using there(4) by simp
  from there(2)[OF there(3) this] i
  have "map sector rest' = map sector rest"
    "insertPost h a (set (leafStarsL rest)) (set (aggregatesL rest)) h'
       (set (leafStarsL rest')) (set (aggregatesL rest'))"
    by simp_all
  then show ?case
    using there(1) i
      insertPost_frame_left[of h a _ _ h' _ _ "set (leafStars c)" "set (aggregates c)"]
    by simp
qed

subsection \<open>The loop of \<^verbatim>\<open>GenerateQuadTree\<close>\<close>

text \<open>
  \<open>buildPost base h t as h' t'\<close>: inserting the stars \<open>as\<close>, all allocated below \<open>base\<close>,
  into \<open>t\<close>. Aggregates live at or above \<open>base\<close>; positions below \<open>base\<close> never change; and
  if the positions of the inserted stars are pairwise distinct and distinct from those
  of the leaf stars of \<open>t\<close>, no cell below \<open>base\<close> changes.
\<close>

definition buildPost :: "addr \<Rightarrow> Heap \<Rightarrow> Node \<Rightarrow> addr list \<Rightarrow> Heap \<Rightarrow> Node \<Rightarrow> bool" where
  "buildPost base h t as h' t' \<longleftrightarrow>
     nxt h \<le> nxt h' \<and> sector t' = sector t
     \<and> set (leafStars t') \<subseteq> set (leafStars t) \<union> set as
     \<and> (\<forall>d \<in> set (aggregates t'). base \<le> d \<and> d < nxt h')
     \<and> (\<forall>x<base. x \<notin> set (leafStars t) \<union> set as \<longrightarrow> cells h' x = cells h x)
     \<and> (\<forall>x<base. position (cells h' x) = position (cells h x))
     \<and> (distinct (map (\<lambda>a. position (cells h a)) as)
          \<and> (\<forall>a \<in> set as. \<forall>x \<in> set (leafStars t).
                 position (cells h x) \<noteq> position (cells h a))
          \<longrightarrow> (\<forall>x<base. cells h' x = cells h x))"

lemma insertAll_frame:
  assumes "base \<le> nxt h" "\<forall>a \<in> set as. a < base"
    and "\<forall>x \<in> set (leafStars t). x < base"
    and "\<forall>d \<in> set (aggregates t). base \<le> d \<and> d < nxt h"
  shows "case insertAll h t as of (h', t') \<Rightarrow> buildPost base h t as h' t'"
  using assms
proof (induction as arbitrary: h t)
  case Nil
  then show ?case by (simp add: buildPost_def)
next
  case (Cons a as)
  obtain h1 t1 where i: "insertStar h t a = (h1, t1)" by force
  obtain h' t' where r: "insertAll h1 t1 as = (h', t')" by force
  have a: "a < base" "a < nxt h" "a \<notin> set (aggregates t)"
    using Cons.prems by auto
  from insert_frame(1)[OF a(2,3)] i
  have sec: "sector t1 = sector t"
    and post: "insertPost h a (set (leafStars t)) (set (aggregates t)) h1
                 (set (leafStars t1)) (set (aggregates t1))"
    by simp_all
  have n1: "nxt h \<le> nxt h1" and L1: "set (leafStars t1) \<subseteq> insert a (set (leafStars t))"
    and A1: "set (aggregates t1) \<subseteq> set (aggregates t) \<union> {nxt h..<nxt h1}"
    using post by (simp_all add: insertPost_def)
  have step: "\<And>x. x < base \<Longrightarrow>
      cells h1 x = cells h x
      \<or> (x \<in> set (leafStars t) \<and> position (cells h x) = position (cells h a)
          \<and> cells h1 x = (cells h x)\<lparr>mass := mass (cells h a)\<rparr>)"
  proof -
    fix x assume "x < base"
    then have "x < nxt h" "x \<notin> set (aggregates t)" using Cons.prems(1,4) by auto
    then show "cells h1 x = cells h x
      \<or> (x \<in> set (leafStars t) \<and> position (cells h x) = position (cells h a)
          \<and> cells h1 x = (cells h x)\<lparr>mass := mass (cells h a)\<rparr>)"
      using post by (simp add: insertPost_def)
  qed
  have pos1: "\<And>x. x < base \<Longrightarrow> position (cells h1 x) = position (cells h x)"
    using step by force
  have p1: "base \<le> nxt h1" using Cons.prems(1) n1 by simp
  have p2: "\<forall>a \<in> set as. a < base" using Cons.prems(2) by simp
  have p3: "\<forall>x \<in> set (leafStars t1). x < base" using L1 Cons.prems(3) a(1) by auto
  have p4: "\<forall>d \<in> set (aggregates t1). base \<le> d \<and> d < nxt h1"
    using A1 Cons.prems(1,4) n1 by fastforce
  from Cons.IH[OF p1 p2 p3 p4] r
  have ih: "buildPost base h1 t1 as h' t'" by simp
  have "buildPost base h t (a # as) h' t'"
    unfolding buildPost_def
  proof (intro conjI ballI allI impI)
    show "nxt h \<le> nxt h'" using ih n1 by (simp add: buildPost_def)
    show "sector t' = sector t" using ih sec by (simp add: buildPost_def)
    show "set (leafStars t') \<subseteq> set (leafStars t) \<union> set (a # as)"
      using ih L1 by (auto simp: buildPost_def)
  next
    fix d assume "d \<in> set (aggregates t')"
    then show "base \<le> d" "d < nxt h'" using ih by (simp_all add: buildPost_def)
  next
    fix x assume x: "x < base" "x \<notin> set (leafStars t) \<union> set (a # as)"
    then have "x \<notin> set (leafStars t1) \<union> set as" using L1 by auto
    then have "cells h' x = cells h1 x" using ih x(1) by (simp add: buildPost_def)
    moreover have "cells h1 x = cells h x" using step[OF x(1)] x(2) by auto
    ultimately show "cells h' x = cells h x" by simp
  next
    fix x assume x: "x < base"
    then have "position (cells h' x) = position (cells h1 x)" using ih by (simp add: buildPost_def)
    then show "position (cells h' x) = position (cells h x)" using pos1[OF x] by simp
  next
    fix x
    assume d: "distinct (map (\<lambda>a. position (cells h a)) (a # as))
          \<and> (\<forall>a' \<in> set (a # as). \<forall>x \<in> set (leafStars t).
                 position (cells h x) \<noteq> position (cells h a'))"
      and x: "x < base"
    have same1: "\<And>y. y < base \<Longrightarrow> cells h1 y = cells h y"
      using step d by auto
    have "distinct (map (\<lambda>a. position (cells h1 a)) as)"
    proof -
      have eq: "map (\<lambda>a. position (cells h1 a)) as = map (\<lambda>a. position (cells h a)) as"
        using p2 same1 by simp
      show ?thesis unfolding eq using d by simp
    qed
    moreover have "\<forall>a' \<in> set as. \<forall>y \<in> set (leafStars t1).
                 position (cells h1 y) \<noteq> position (cells h1 a')"
    proof (intro ballI)
      fix a' y assume a': "a' \<in> set as" and y: "y \<in> set (leafStars t1)"
      have ea: "cells h1 a' = cells h a'" "cells h1 y = cells h y"
        using same1 p2 p3 a' y by auto
      have "y = a \<or> y \<in> set (leafStars t)" using y L1 by auto
      then have "position (cells h y) \<noteq> position (cells h a')"
        using d a' by auto
      then show "position (cells h1 y) \<noteq> position (cells h1 a')" using ea by simp
    qed
    ultimately have "cells h' x = cells h1 x" using ih x by (simp add: buildPost_def)
    then show "cells h' x = cells h x" using same1[OF x] by simp
  qed
  then show ?case using i r by simp
qed

lemma GenerateQuadTree_frame:
  assumes "\<forall>a \<in> set (stars u). a < nxt h"
  shows "buildPost (nxt h) h (Node \<lparr>qx = 0, qy = 0, qwidth = width u\<rparr> None []) (stars u)
           (fst (GenerateQuadTree h u)) (root (snd (GenerateQuadTree h u)))"
proof -
  let ?t = "Node \<lparr>qx = 0, qy = 0, qwidth = width u\<rparr> None []"
  have "case insertAll h ?t (stars u) of (h', t') \<Rightarrow> buildPost (nxt h) h ?t (stars u) h' t'"
    by (rule insertAll_frame) (use assms in \<open>simp_all add: leafStars_Node aggregates_Node\<close>)
  then show ?thesis by (simp add: GenerateQuadTree_def split: prod.splits)
qed

section \<open>The side effect of building the tree\<close>

text \<open>
  Whatever the stars of the universe are, a build changes no field of an object allocated
  before the call but its mass.
\<close>

lemma insertAll_mass_only:
  assumes "base \<le> nxt h" "\<forall>a \<in> set as. a < base"
    and "\<forall>x \<in> set (leafStars t). x < base"
    and "\<forall>d \<in> set (aggregates t). base \<le> d \<and> d < nxt h"
  shows "\<forall>x<base. \<exists>m. cells (fst (insertAll h t as)) x = (cells h x)\<lparr>mass := m\<rparr>"
  using assms
proof (induction as arbitrary: h t)
  case Nil
  have "\<And>x. cells h x = (cells h x)\<lparr>mass := mass (cells h x)\<rparr>" by simp
  then show ?case by (metis insertAll.simps(1) fst_conv)
next
  case (Cons a as)
  obtain h1 t1 where i: "insertStar h t a = (h1, t1)" by force
  have a: "a < base" "a < nxt h" "a \<notin> set (aggregates t)"
    using Cons.prems by auto
  from insert_frame(1)[OF a(2,3)] i
  have post: "insertPost h a (set (leafStars t)) (set (aggregates t)) h1
                 (set (leafStars t1)) (set (aggregates t1))"
    by simp
  have n1: "nxt h \<le> nxt h1" and L1: "set (leafStars t1) \<subseteq> insert a (set (leafStars t))"
    and A1: "set (aggregates t1) \<subseteq> set (aggregates t) \<union> {nxt h..<nxt h1}"
    using post by (simp_all add: insertPost_def)
  have step: "\<And>x. x < base \<Longrightarrow> \<exists>m. cells h1 x = (cells h x)\<lparr>mass := m\<rparr>"
  proof -
    fix x assume "x < base"
    then have "x < nxt h" "x \<notin> set (aggregates t)" using Cons.prems(1,4) by auto
    then have "cells h1 x = cells h x
      \<or> cells h1 x = (cells h x)\<lparr>mass := mass (cells h a)\<rparr>"
      using post by (auto simp add: insertPost_def)
    moreover have "cells h x = (cells h x)\<lparr>mass := mass (cells h x)\<rparr>" by simp
    ultimately show "\<exists>m. cells h1 x = (cells h x)\<lparr>mass := m\<rparr>" by metis
  qed
  have p1: "base \<le> nxt h1" using Cons.prems(1) n1 by simp
  have p2: "\<forall>a \<in> set as. a < base" using Cons.prems(2) by simp
  have p3: "\<forall>x \<in> set (leafStars t1). x < base" using L1 Cons.prems(3) a(1) by auto
  have p4: "\<forall>d \<in> set (aggregates t1). base \<le> d \<and> d < nxt h1"
    using A1 Cons.prems(1,4) n1 by fastforce
  note ih = Cons.IH[OF p1 p2 p3 p4]
  show ?case
  proof (intro allI impI)
    fix x assume x: "x < base"
    from ih x obtain m where m: "cells (fst (insertAll h1 t1 as)) x = (cells h1 x)\<lparr>mass := m\<rparr>"
      by blast
    from step[OF x] obtain m1 where "cells h1 x = (cells h x)\<lparr>mass := m1\<rparr>" by blast
    then have "cells (fst (insertAll h1 t1 as)) x = (cells h x)\<lparr>mass := m\<rparr>" using m by simp
    then show "\<exists>m. cells (fst (insertAll h t (a # as))) x = (cells h x)\<lparr>mass := m\<rparr>"
      using i by auto
  qed
qed


lemma GenerateQuadTree_mass_only:
  assumes "\<forall>a \<in> set (stars u). a < nxt h"
  shows "\<forall>x<nxt h. \<exists>m. cells (fst (GenerateQuadTree h u)) x = (cells h x)\<lparr>mass := m\<rparr>"
proof -
  let ?t = "Node \<lparr>qx = 0, qy = 0, qwidth = width u\<rparr> None []"
  have "\<forall>x<nxt h. \<exists>m. cells (fst (insertAll h ?t (stars u))) x = (cells h x)\<lparr>mass := m\<rparr>"
    by (rule insertAll_mass_only) (use assms in \<open>simp_all add: leafStars_Node aggregates_Node\<close>)
  moreover have "fst (GenerateQuadTree h u) = fst (insertAll h ?t (stars u))"
    by (simp add: GenerateQuadTree_def split: prod.splits)
  ultimately show ?thesis by simp
qed

text \<open>
  A build that changes a star of its input: two stars at \<open>(5, 5)\<close> with the masses 3 and 7.
\<close>

lemma build_changes_input:
  "cells (fst (GenerateQuadTree (heapOf [mkStar 5 5 3, mkStar 5 5 7])
                 \<lparr>width = 10, stars = [0, 1]\<rparr>)) 0
     \<noteq> cells (heapOf [mkStar 5 5 3, mkStar 5 5 7]) 0"
  by (simp add: GenerateQuadTree_def heapOf_def mkStar_def zeroStar_def zeroPair_def
      insertStar.simps store_def)

text \<open>
  Claim C10, amended. Building the tree is not free of side effects on the input universe:
  some build changes a star of its input. A leaf points to the star object of the universe
  itself, and inserting a star \<open>a\<close> into a leaf that holds a star \<open>e\<close> at the same position
  keeps the leaf and writes to the mass field of \<open>e\<close> and to nothing else. For every
  universe whose stars are allocated (below \<open>nxt h\<close>), \<^verbatim>\<open>GenerateQuadTree\<close> changes no
  field but the mass of an object allocated before the call; and if the positions of the
  stars are pairwise distinct it changes no field at all of such an object, the stars of
  the universe among them. The value that the write stores is not part of this statement.
\<close>

theorem build_side_effect:
  "(\<exists>h0 u0 x0. x0 \<in> set (stars u0) \<and> x0 < nxt h0
        \<and> cells (fst (GenerateQuadTree h0 u0)) x0 \<noteq> cells h0 x0)
   \<and> (position (cells h e) = position (cells h a) \<longrightarrow>
        (\<exists>m. insertStar h (Node q (Some e) []) a
               = (store h e ((cells h e)\<lparr>mass := m\<rparr>), Node q (Some e) [])))
   \<and> ((\<forall>a \<in> set (stars u). a < nxt h) \<longrightarrow>
        (\<forall>x<nxt h. \<exists>m. cells (fst (GenerateQuadTree h u)) x = (cells h x)\<lparr>mass := m\<rparr>))
   \<and> ((\<forall>a \<in> set (stars u). a < nxt h)
       \<and> distinct (map (\<lambda>a. position (cells h a)) (stars u))
      \<longrightarrow> (\<forall>x<nxt h. cells (fst (GenerateQuadTree h u)) x = cells h x))"
proof (intro conjI impI)
  let ?h = "heapOf [mkStar 5 5 3, mkStar 5 5 7]"
  let ?u = "\<lparr>width = 10, stars = [0, 1]\<rparr>"
  have "(0::nat) \<in> set (stars ?u)" "0 < nxt ?h" by (simp_all add: heapOf_def)
  then show "\<exists>h0 u0 x0. x0 \<in> set (stars u0) \<and> x0 < nxt h0
        \<and> cells (fst (GenerateQuadTree h0 u0)) x0 \<noteq> cells h0 x0"
    using build_changes_input by blast
next
  assume "position (cells h e) = position (cells h a)"
  then have "insertStar h (Node q (Some e) []) a
        = (store h e ((cells h e)\<lparr>mass := mass (cells h a)\<rparr>), Node q (Some e) [])"
    by (simp add: insertStar_coincident)
  then show "\<exists>m. insertStar h (Node q (Some e) []) a
               = (store h e ((cells h e)\<lparr>mass := m\<rparr>), Node q (Some e) [])"
    by blast
next
  assume "\<forall>a \<in> set (stars u). a < nxt h"
  then show "\<forall>x<nxt h. \<exists>m. cells (fst (GenerateQuadTree h u)) x = (cells h x)\<lparr>mass := m\<rparr>"
    by (rule GenerateQuadTree_mass_only)
next
  assume a: "(\<forall>a \<in> set (stars u). a < nxt h)
       \<and> distinct (map (\<lambda>a. position (cells h a)) (stars u))"
  then have "buildPost (nxt h) h (Node \<lparr>qx = 0, qy = 0, qwidth = width u\<rparr> None []) (stars u)
           (fst (GenerateQuadTree h u)) (root (snd (GenerateQuadTree h u)))"
    using GenerateQuadTree_frame by blast
  then show "\<forall>x<nxt h. cells (fst (GenerateQuadTree h u)) x = cells h x"
    using a unfolding buildPost_def by (simp add: leafStars_Node)
qed

text \<open>
  Claim C10, counterexample to the ``only for'' of the claim. Width 10, a star at \<open>(5, 5)\<close>
  and two stars of different masses at the same position \<open>(20, 20)\<close>, outside the root
  square. The positions are not pairwise distinct. The second star splits the root and
  falls into no child, the third star is added to the aggregate of the root (an object
  of the tree) and falls into no child either: the two stars at \<open>(20, 20)\<close> never meet in a
  leaf, and the build leaves all three stars of the universe unchanged.
\<close>

theorem outside_coincident_unchanged:
  "\<not> distinct (map (\<lambda>a. position (cells (heapOf [mkStar 5 5 1, mkStar 20 20 3, mkStar 20 20 7]) a))
         [0, 1, 2])
   \<and> cells (fst (GenerateQuadTree (heapOf [mkStar 5 5 1, mkStar 20 20 3, mkStar 20 20 7])
               \<lparr>width = 10, stars = [0, 1, 2]\<rparr>)) 0
       = cells (heapOf [mkStar 5 5 1, mkStar 20 20 3, mkStar 20 20 7]) 0
   \<and> cells (fst (GenerateQuadTree (heapOf [mkStar 5 5 1, mkStar 20 20 3, mkStar 20 20 7])
               \<lparr>width = 10, stars = [0, 1, 2]\<rparr>)) 1
       = cells (heapOf [mkStar 5 5 1, mkStar 20 20 3, mkStar 20 20 7]) 1
   \<and> cells (fst (GenerateQuadTree (heapOf [mkStar 5 5 1, mkStar 20 20 3, mkStar 20 20 7])
               \<lparr>width = 10, stars = [0, 1, 2]\<rparr>)) 2
       = cells (heapOf [mkStar 5 5 1, mkStar 20 20 3, mkStar 20 20 7]) 2"
  by (simp add: GenerateQuadTree_def heapOf_def mkStar_def zeroStar_def zeroPair_def
      insertStar.simps store_def initializeQuadrant_def Let_def inRange_def
      calculateCenterOfMass_def updateCenterOfMass_def alloc_def)

theorem build_side_effect_witness:
  "snd (insertStar (heapOf [mkStar 5 5 3, mkStar 5 5 7])
          (Node \<lparr>qx = 0, qy = 0, qwidth = 10\<rparr> (Some 0) []) 1)
      = Node \<lparr>qx = 0, qy = 0, qwidth = 10\<rparr> (Some 0) []
   \<and> position (cells (fst (insertStar (heapOf [mkStar 5 5 3, mkStar 5 5 7])
                       (Node \<lparr>qx = 0, qy = 0, qwidth = 10\<rparr> (Some 0) []) 1)) 0)
       = \<lparr>px = 5, py = 5\<rparr>
   \<and> position (cells (fst (GenerateQuadTree (heapOf [mkStar 5 5 3, mkStar 5 5 7])
               \<lparr>width = 10, stars = [0, 1]\<rparr>)) 0) = \<lparr>px = 5, py = 5\<rparr>
   \<and> cells (fst (GenerateQuadTree (heapOf [mkStar 5 5 3, mkStar 1 1 7])
               \<lparr>width = 10, stars = [0, 1]\<rparr>)) 0 = mkStar 5 5 3
   \<and> cells (fst (GenerateQuadTree (heapOf [mkStar 5 5 3, mkStar 1 1 7])
               \<lparr>width = 10, stars = [0, 1]\<rparr>)) 1 = mkStar 1 1 7"
proof -
  let ?hc = "heapOf [mkStar 5 5 3, mkStar 5 5 7]"
  let ?hd = "heapOf [mkStar 5 5 3, mkStar 1 1 7]"
  let ?u = "\<lparr>width = 10, stars = [0, 1]\<rparr>"
  let ?q = "\<lparr>qx = 0, qy = 0, qwidth = 10\<rparr>"
  have c: "position (cells ?hc 0) = position (cells ?hc 1)"
    by (simp add: heapOf_def mkStar_def)
  have al: "\<forall>a \<in> set (stars ?u). a < nxt ?hc"
    by (simp add: heapOf_def)
  have d: "(\<forall>a \<in> set (stars ?u). a < nxt ?hd)
       \<and> distinct (map (\<lambda>a. position (cells ?hd a)) (stars ?u))"
    by (simp add: heapOf_def mkStar_def)
  from build_side_effect[of ?hc 0 1 ?q ?u] c
  obtain m where m: "insertStar ?hc (Node ?q (Some 0) []) 1
        = (store ?hc 0 ((cells ?hc 0)\<lparr>mass := m\<rparr>), Node ?q (Some 0) [])"
    by blast
  have w1: "snd (insertStar ?hc (Node ?q (Some 0) []) 1) = Node ?q (Some 0) []"
    unfolding m by simp
  have w2: "position (cells (fst (insertStar ?hc (Node ?q (Some 0) []) 1)) 0) = \<lparr>px = 5, py = 5\<rparr>"
    unfolding m by (simp add: heapOf_def mkStar_def)
  from build_side_effect[of ?hc 0 1 ?q ?u] al
  have "\<forall>x<nxt ?hc. \<exists>m. cells (fst (GenerateQuadTree ?hc ?u)) x = (cells ?hc x)\<lparr>mass := m\<rparr>"
    by blast
  then obtain m' where "cells (fst (GenerateQuadTree ?hc ?u)) 0 = (cells ?hc 0)\<lparr>mass := m'\<rparr>"
    by (auto simp: heapOf_def)
  then have w3: "position (cells (fst (GenerateQuadTree ?hc ?u)) 0) = \<lparr>px = 5, py = 5\<rparr>"
    by (simp add: heapOf_def mkStar_def)
  from build_side_effect[of ?hd 0 0 ?q ?u] d
  have "\<forall>x<nxt ?hd. cells (fst (GenerateQuadTree ?hd ?u)) x = cells ?hd x"
    by blast
  then have "cells (fst (GenerateQuadTree ?hd ?u)) 0 = cells ?hd 0"
    "cells (fst (GenerateQuadTree ?hd ?u)) 1 = cells ?hd 1"
    by (simp_all add: heapOf_def)
  then show ?thesis using w1 w2 w3 by (simp add: heapOf_def)
qed

section \<open>One integration step\<close>

text \<open>
  The integrator as the spec words it (section 4.4), for a body \<open>b\<close> of the previous
  snapshot, the net force \<open>F\<close> on it and the time step \<open>dt\<close>:
  \<open>a\<^sub>n\<^sub>e\<^sub>w = F / b.mass\<close>, \<open>v\<^sub>n\<^sub>e\<^sub>w = v\<^sub>o\<^sub>l\<^sub>d + 1/2 (a\<^sub>n\<^sub>e\<^sub>w + a\<^sub>o\<^sub>l\<^sub>d) dt\<close> and
  \<open>p\<^sub>n\<^sub>e\<^sub>w = p\<^sub>o\<^sub>l\<^sub>d + v\<^sub>o\<^sub>l\<^sub>d dt + 1/2 a\<^sub>o\<^sub>l\<^sub>d dt\<^sup>2\<close>; mass, radius and colour are kept.
\<close>

definition specStep :: "Star \<Rightarrow> OrderedPair \<Rightarrow> real \<Rightarrow> Star" where
  "specStep b F dt =
     b\<lparr>acceleration := \<lparr>px = px F / mass b, py = py F / mass b\<rparr>,
       velocity := \<lparr>px = px (velocity b) + 1/2 * (px F / mass b + px (acceleration b)) * dt,
                    py = py (velocity b) + 1/2 * (py F / mass b + py (acceleration b)) * dt\<rparr>,
       position := \<lparr>px = px (position b) + px (velocity b) * dt
                           + 1/2 * px (acceleration b) * dt\<^sup>2,
                    py = py (position b) + py (velocity b) * dt
                           + 1/2 * py (acceleration b) * dt\<^sup>2\<rparr>\<rparr>"

text \<open>The loop body of \<^verbatim>\<open>updateUniverse\<close> is one store of the advanced star.\<close>

lemma updateStar_specStep:
  "updateStar h tree s dt theta =
     (case CalculateNetForce h tree s theta of
        Inl e \<Rightarrow> Inl e
      | Inr F \<Rightarrow> Inr (store h s (specStep (cells h s) F dt)))"
  by (simp add: updateStar_def specStep_def Let_def store_def UpdateVelocity_def
      UpdatePosition_def power2_eq_square algebra_simps split: sum.splits)

lemma pair_fields: "\<lparr>px = px p, py = py p\<rparr> = (p::OrderedPair)"
  by (cases p) simp

lemma star_fields:
  "\<lparr>position = position b, velocity = velocity b, acceleration = acceleration b,
    mass = mass b, radius = radius b, red = red b, green = green b, blue = blue b\<rparr> = (b::Star)"
  by (cases b) simp

lemma copyStars_copy: "copyStars h s = alloc h (cells h s)"
  by (simp add: copyStars_def pair_fields star_fields)

lemma copyAll_result:
  assumes "\<forall>a \<in> set as. a < nxt h"
  shows "case copyAll h as of (h', cs) \<Rightarrow>
           cs = [nxt h..<nxt h + length as] \<and> nxt h' = nxt h + length as
           \<and> (\<forall>x<nxt h. cells h' x = cells h x)
           \<and> (\<forall>i<length as. cells h' (nxt h + i) = cells h (as ! i))"
  using assms
proof (induction as arbitrary: h)
  case Nil
  then show ?case by simp
next
  case (Cons a as)
  let ?h1 = "fst (alloc h (cells h a))"
  obtain h' cs where r: "copyAll ?h1 as = (h', cs)" by force
  have "\<forall>a \<in> set as. a < nxt ?h1" using Cons.prems by auto
  from Cons.IH[OF this] r
  have ih: "cs = [nxt ?h1..<nxt ?h1 + length as]" "nxt h' = nxt ?h1 + length as"
    "\<forall>x<nxt ?h1. cells h' x = cells ?h1 x"
    "\<forall>i<length as. cells h' (nxt ?h1 + i) = cells ?h1 (as ! i)"
    by simp_all
  have c: "copyAll h (a # as) = (h', nxt h # cs)"
    using r by (simp add: copyStars_copy alloc_def)
  have "\<forall>i<length (a # as). cells h' (nxt h + i) = cells h ((a # as) ! i)"
  proof (intro allI impI)
    fix i assume i: "i < length (a # as)"
    show "cells h' (nxt h + i) = cells h ((a # as) ! i)"
    proof (cases i)
      case 0
      then show ?thesis using ih(3) by simp
    next
      case (Suc j)
      then have j: "j < length as" using i by simp
      then have "as ! j < nxt h" using Cons.prems by simp
      then show ?thesis using ih(4) j Suc by simp
    qed
  qed
  moreover have "\<forall>x<nxt h. cells h' x = cells h x" using ih(3) by simp
  moreover have "nxt h # cs = [nxt h..<nxt h + length (a # as)]"
    unfolding ih(1) by (subst upt_conv_Cons[of "nxt h"]) simp_all
  moreover have "nxt h' = nxt h + length (a # as)" using ih(2) by simp
  ultimately show ?case unfolding c prod.case by blast
qed

text \<open>The traversal reads the stars of the tree and the query star, nothing else.\<close>

lemma force_cong:
  "(\<forall>x \<in> set (leafStars t) \<union> set (aggregates t). cells g x = cells h x)
     \<Longrightarrow> cells g c = cells h c
     \<Longrightarrow> CalculateNetForce h t c theta = CalculateNetForce g t c theta"
  "(\<forall>x \<in> set (leafStarsL cs) \<union> set (aggregatesL cs). cells g x = cells h x)
     \<Longrightarrow> cells g c = cells h c
     \<Longrightarrow> childrenForce h cs c theta force = childrenForce g cs c theta force"
proof (induction h t c theta and h cs c theta force rule: CalculateNetForce_childrenForce.induct)
  case (1 h q s cs currStar theta)
  show ?case
  proof (cases s)
    case None
    then show ?thesis by simp
  next
    case (Some n)
    have n: "cells g n = cells h n"
      using 1(2) Some by (cases "cs = []") (simp_all add: leafStars_Node aggregates_Node)
    show ?thesis
    proof (cases "cs = []")
      case True
      then show ?thesis using Some n 1(3) by (simp add: Let_def)
    next
      case False
      have sub: "\<forall>x \<in> set (leafStarsL cs) \<union> set (aggregatesL cs). cells g x = cells h x"
        using 1(2) False by (auto simp add: leafStars_Node aggregates_Node)
      show ?thesis using Some n 1(3) False 1(1)[OF Some refl _ refl refl _ sub 1(3)]
        by (simp add: Let_def)
    qed
  qed
next
  case (2 h currStar theta force)
  then show ?case by simp
next
  case (3 h child rest currStar theta force)
  have c: "\<forall>x \<in> set (leafStars child) \<union> set (aggregates child). cells g x = cells h x"
    and r: "\<forall>x \<in> set (leafStarsL rest) \<union> set (aggregatesL rest). cells g x = cells h x"
    using 3(4) by auto
  show ?case
  proof (cases "star child \<noteq> None")
    case True
    have e: "CalculateNetForce h child currStar theta = CalculateNetForce g child currStar theta"
      using 3(1)[OF True c 3(5)] .
    show ?thesis
    proof (cases "CalculateNetForce h child currStar theta")
      case (Inl a)
      then show ?thesis using True e by simp
    next
      case (Inr cf)
      then show ?thesis using True e 3(2)[OF True Inr r 3(5)] by simp
    qed
  next
    case False
    then show ?thesis using 3(3)[OF False r 3(5)] by simp
  qed
qed

lemma updateStars_result:
  assumes "distinct cs"
    and "\<forall>c \<in> set cs. c \<notin> set (leafStars t) \<union> set (aggregates t)"
    and "updateStars h t cs dt theta = Inr h'"
  shows "nxt h' = nxt h \<and> (\<forall>x. x \<notin> set cs \<longrightarrow> cells h' x = cells h x)
       \<and> (\<forall>c \<in> set cs. \<exists>F. CalculateNetForce h t c theta = Inr F
              \<and> cells h' c = specStep (cells h c) F dt)"
  using assms
proof (induction cs arbitrary: h)
  case Nil
  then show ?case by simp
next
  case (Cons c cs)
  from Cons.prems(3) obtain F where F: "CalculateNetForce h t c theta = Inr F"
    by (auto simp: updateStar_specStep split: sum.splits)
  let ?h1 = "store h c (specStep (cells h c) F dt)"
  have u: "updateStar h t c dt theta = Inr ?h1" using F by (simp add: updateStar_specStep)
  have r: "updateStars ?h1 t cs dt theta = Inr h'" using Cons.prems(3) u by simp
  have d: "distinct cs" "c \<notin> set cs" using Cons.prems(1) by simp_all
  have o: "\<forall>c \<in> set cs. c \<notin> set (leafStars t) \<union> set (aggregates t)"
    and ct: "c \<notin> set (leafStars t) \<union> set (aggregates t)"
    using Cons.prems(2) by simp_all
  from Cons.IH[OF d(1) o r]
  have ih: "nxt h' = nxt ?h1" "\<forall>x. x \<notin> set cs \<longrightarrow> cells h' x = cells ?h1 x"
    "\<forall>c' \<in> set cs. \<exists>F'. CalculateNetForce ?h1 t c' theta = Inr F'
              \<and> cells h' c' = specStep (cells ?h1 c') F' dt"
    by simp_all
  have tree: "\<forall>x \<in> set (leafStars t) \<union> set (aggregates t). cells ?h1 x = cells h x"
    using ct by auto
  have "\<forall>c' \<in> set (c # cs). \<exists>F'. CalculateNetForce h t c' theta = Inr F'
              \<and> cells h' c' = specStep (cells h c') F' dt"
  proof
    fix c' assume "c' \<in> set (c # cs)"
    then consider "c' = c" | "c' \<in> set cs" "c' \<noteq> c" using d(2) by auto
    then show "\<exists>F'. CalculateNetForce h t c' theta = Inr F'
              \<and> cells h' c' = specStep (cells h c') F' dt"
    proof cases
      case 1
      then show ?thesis using F ih(2) d(2) by simp
    next
      case 2
      then have same: "cells ?h1 c' = cells h c'" by simp
      from ih(3) 2(1) obtain F' where F': "CalculateNetForce ?h1 t c' theta = Inr F'"
        "cells h' c' = specStep (cells ?h1 c') F' dt" by blast
      have "CalculateNetForce h t c' theta = CalculateNetForce ?h1 t c' theta"
        by (rule force_cong(1)[OF tree same])
      then show ?thesis using F' same by simp
    qed
  qed
  moreover have "\<forall>x. x \<notin> set (c # cs) \<longrightarrow> cells h' x = cells h x" using ih(2) by simp
  moreover have "nxt h' = nxt h" using ih(1) by simp
  ultimately show ?case by blast
qed

lemma updateStars_returns:
  "star t \<noteq> None \<Longrightarrow> \<exists>h'. updateStars h t cs dt theta = Inr h'"
proof (induction cs arbitrary: h)
  case Nil
  then show ?case by simp
next
  case (Cons c cs)
  from traversal_returns(1)[OF Cons.prems] obtain F
    where "CalculateNetForce h t c theta = Inr F" by blast
  then show ?case using Cons by (simp add: updateStar_specStep)
qed

text \<open>A step returns when the root of the tree carries a star after the build.\<close>

lemma updateUniverse_returns:
  assumes "star (root (snd (GenerateQuadTree (fst (copyUniverse h u)) u))) \<noteq> None"
  shows "\<exists>h' u'. updateUniverse h u dt theta = Inr (h', u')"
proof -
  obtain h1 u1 where c: "copyUniverse h u = (h1, u1)" by force
  obtain h2 tree where g: "GenerateQuadTree h1 u = (h2, tree)" by force
  have "star (root tree) \<noteq> None" using assms c g by simp
  from updateStars_returns[OF this] obtain h'
    where "updateStars h2 (root tree) (stars u1) dt theta = Inr h'" by blast
  then show ?thesis using c g by (simp add: updateUniverse_def)
qed

text \<open>
  Claim C1. Let the stars of the universe \<open>u\<close> be allocated objects of non-zero mass (the
  quotient \<open>F / m\<close> of the model is the quotient of the code only for \<open>m \<noteq> 0\<close>), let the
  step return the universe \<open>u'\<close> in the store \<open>h'\<close>, and let \<open>tree\<close>, in the store \<open>h2\<close>, be
  the tree that the step builds from \<open>u\<close>. Then \<open>u'\<close> has the width and the number of stars
  of \<open>u\<close>, and its star \<open>i\<close> is the star \<open>i\<close> of \<open>u\<close>, as it was before the step, advanced by
  the integrator of the spec with the net force \<open>F\<close> that the traversal of \<open>tree\<close> returns
  for it: the new acceleration is \<open>F / m\<close>, the new velocity uses the mean of old and new
  acceleration, and the new position uses the old velocity and the old acceleration.
\<close>

theorem step_follows_integrator:
  assumes "\<forall>a \<in> set (stars u). a < nxt h \<and> mass (cells h a) \<noteq> 0"
    and "updateUniverse h u dt theta = Inr (h', u')"
    and "GenerateQuadTree (fst (copyUniverse h u)) u = (h2, tree)"
  shows "width u' = width u \<and> length (stars u') = length (stars u)
       \<and> (\<forall>i<length (stars u).
             \<exists>F. CalculateNetForce h2 (root tree) (stars u' ! i) theta = Inr F
                \<and> cells h' (stars u' ! i) = specStep (cells h (stars u ! i)) F dt)"
proof -
  let ?n = "length (stars u)"
  obtain h1 cs where c: "copyAll h (stars u) = (h1, cs)" by force
  have al: "\<forall>a \<in> set (stars u). a < nxt h" using assms(1) by simp
  from copyAll_result[OF al] c
  have cs: "cs = [nxt h..<nxt h + ?n]" and n1: "nxt h1 = nxt h + ?n"
    and old: "\<forall>x<nxt h. cells h1 x = cells h x"
    and cp: "\<forall>i<?n. cells h1 (nxt h + i) = cells h (stars u ! i)"
    by simp_all
  have cu: "copyUniverse h u = (h1, \<lparr>width = width u, stars = cs\<rparr>)"
    using c by (simp add: copyUniverse_def)
  have g: "GenerateQuadTree h1 u = (h2, tree)" using assms(3) cu by simp
  have al1: "\<forall>a \<in> set (stars u). a < nxt h1" using al n1 by auto
  from GenerateQuadTree_frame[OF al1] g
  have bp: "buildPost (nxt h1) h1 (Node \<lparr>qx = 0, qy = 0, qwidth = width u\<rparr> None []) (stars u)
              h2 (root tree)"
    by simp
  have L: "set (leafStars (root tree)) \<subseteq> set (stars u)"
    and A: "\<forall>d \<in> set (aggregates (root tree)). nxt h1 \<le> d"
    and keep: "\<forall>x<nxt h1. x \<notin> set (stars u) \<longrightarrow> cells h2 x = cells h1 x"
    using bp by (simp_all add: buildPost_def leafStars_Node)
  from assms(2) cu g obtain
    us: "updateStars h2 (root tree) cs dt theta = Inr h'" and u': "u' = \<lparr>width = width u, stars = cs\<rparr>"
    by (auto simp: updateUniverse_def split: sum.splits)
  have dis: "distinct cs" using cs by simp
  have out: "\<forall>c \<in> set cs. c \<notin> set (leafStars (root tree)) \<union> set (aggregates (root tree))"
  proof
    fix c assume "c \<in> set cs"
    then have "nxt h \<le> c" "c < nxt h1" using cs n1 by auto
    then show "c \<notin> set (leafStars (root tree)) \<union> set (aggregates (root tree))"
      using L A al by fastforce
  qed
  from updateStars_result[OF dis out us]
  have res: "\<forall>c \<in> set cs. \<exists>F. CalculateNetForce h2 (root tree) c theta = Inr F
              \<and> cells h' c = specStep (cells h2 c) F dt"
    by simp
  have "\<forall>i<?n. \<exists>F. CalculateNetForce h2 (root tree) (stars u' ! i) theta = Inr F
                \<and> cells h' (stars u' ! i) = specStep (cells h (stars u ! i)) F dt"
  proof (intro allI impI)
    fix i assume i: "i < ?n"
    have ci: "stars u' ! i = nxt h + i" using u' cs i by simp
    have mem: "nxt h + i \<in> set cs" using cs i by simp
    have "nxt h + i < nxt h1" "nxt h + i \<notin> set (stars u)" using i n1 al by auto
    then have "cells h2 (nxt h + i) = cells h1 (nxt h + i)" using keep by simp
    then have "cells h2 (nxt h + i) = cells h (stars u ! i)" using cp i by simp
    then show "\<exists>F. CalculateNetForce h2 (root tree) (stars u' ! i) theta = Inr F
                \<and> cells h' (stars u' ! i) = specStep (cells h (stars u ! i)) F dt"
      using res mem ci by fastforce
  qed
  then show ?thesis using u' cs by simp
qed

text \<open>
  The two-body scenario of the spec: width 10, bodies of mass 1 at \<open>(3, 5)\<close> and \<open>(7, 5)\<close>
  at rest, \<open>dt = 1\<close>. After the step the copies (addresses 2 and 3) have the
  accelerations \<open>\<plusminus>G/16\<close>, the velocities \<open>\<plusminus>G/32\<close> and their old positions.
\<close>

definition twoBodies :: Heap where
  "twoBodies = heapOf [mkStar 3 5 1, mkStar 7 5 1]"

lemmas evalDefs = twoBodies_def updateUniverse_def copyUniverse_def copyStars_def alloc_def
      GenerateQuadTree_def heapOf_def mkStar_def zeroStar_def zeroPair_def
      insertStar.simps store_def initializeQuadrant_def Let_def inRange_def
      calculateCenterOfMass_def updateStar_def computeDistance_def
      computeGravitationalForce_def addPair_def UpdateVelocity_def UpdatePosition_def

theorem step_follows_integrator_witness:
  "cells (fst (projr (updateUniverse twoBodies \<lparr>width = 10, stars = [0, 1]\<rparr> 1 0.5))) 2
     = (mkStar 3 5 1)\<lparr>acceleration := \<lparr>px = G / 16, py = 0\<rparr>,
                      velocity := \<lparr>px = G / 32, py = 0\<rparr>\<rparr>
   \<and> cells (fst (projr (updateUniverse twoBodies \<lparr>width = 10, stars = [0, 1]\<rparr> 1 0.5))) 3
     = (mkStar 7 5 1)\<lparr>acceleration := \<lparr>px = - G / 16, py = 0\<rparr>,
                      velocity := \<lparr>px = - G / 32, py = 0\<rparr>\<rparr>"
proof -
  let ?U = "\<lparr>width = 10, stars = [0, 1]\<rparr>"
  let ?r = "updateUniverse twoBodies ?U 1 0.5"
  let ?g = "GenerateQuadTree (fst (copyUniverse twoBodies ?U)) ?U"
  have "\<not> isl ?r" by (simp add: evalDefs)
  then have ret: "?r = Inr (fst (projr ?r), snd (projr ?r))" by (cases ?r) simp_all
  have tree: "?g = (fst ?g, snd ?g)" by simp
  have pre: "\<forall>a \<in> set (stars ?U). a < nxt twoBodies \<and> mass (cells twoBodies a) \<noteq> 0"
    by (simp add: twoBodies_def heapOf_def mkStar_def)
  have st: "stars (snd (projr ?r)) = [2, 3]" by (simp add: evalDefs numeral_2_eq_2 numeral_3_eq_3)
  have f0: "CalculateNetForce (fst ?g) (root (snd ?g)) 2 0.5 = Inr \<lparr>px = G / 16, py = 0\<rparr>"
    by (simp add: evalDefs numeral_2_eq_2)
  have f1: "CalculateNetForce (fst ?g) (root (snd ?g)) 3 0.5 = Inr \<lparr>px = - G / 16, py = 0\<rparr>"
    by (simp add: evalDefs numeral_3_eq_3)
  from step_follows_integrator[OF pre ret tree]
  have all: "\<forall>i<length (stars ?U).
             \<exists>F. CalculateNetForce (fst ?g) (root (snd ?g)) (stars (snd (projr ?r)) ! i) 0.5 = Inr F
                \<and> cells (fst (projr ?r)) (stars (snd (projr ?r)) ! i)
                    = specStep (cells twoBodies (stars ?U ! i)) F 1"
    by blast
  from all[rule_format, of 0] st f0
  have a: "cells (fst (projr ?r)) 2 = specStep (cells twoBodies 0) \<lparr>px = G / 16, py = 0\<rparr> 1"
    by simp
  from all[rule_format, of 1] st f1
  have b: "cells (fst (projr ?r)) 3 = specStep (cells twoBodies 1) \<lparr>px = - G / 16, py = 0\<rparr> 1"
    by simp
  show ?thesis
    unfolding a b by (simp add: specStep_def twoBodies_def heapOf_def mkStar_def zeroStar_def zeroPair_def)
qed

section \<open>The aggregate invariant of the tree\<close>

text \<open>
  What a node contributes to the sums of \<^verbatim>\<open>calculateCenterOfMass\<close> in its parent: the
  mass of its star and the mass-weighted coordinates of its star, zero without a star.
\<close>

definition nodeMass :: "Heap \<Rightarrow> Node \<Rightarrow> real" where
  "nodeMass h n = (case star n of None \<Rightarrow> 0 | Some e \<Rightarrow> mass (cells h e))"

definition nodeMomentX :: "Heap \<Rightarrow> Node \<Rightarrow> real" where
  "nodeMomentX h n =
     (case star n of None \<Rightarrow> 0 | Some e \<Rightarrow> px (position (cells h e)) * mass (cells h e))"

definition nodeMomentY :: "Heap \<Rightarrow> Node \<Rightarrow> real" where
  "nodeMomentY h n =
     (case star n of None \<Rightarrow> 0 | Some e \<Rightarrow> py (position (cells h e)) * mass (cells h e))"

lemma nodeSums_Node [simp]:
  "nodeMass h (Node q None cs) = 0" "nodeMass h (Node q (Some e) cs) = mass (cells h e)"
  "nodeMomentX h (Node q None cs) = 0"
  "nodeMomentX h (Node q (Some e) cs) = px (position (cells h e)) * mass (cells h e)"
  "nodeMomentY h (Node q None cs) = 0"
  "nodeMomentY h (Node q (Some e) cs) = py (position (cells h e)) * mass (cells h e)"
  by (simp_all add: nodeMass_def nodeMomentX_def nodeMomentY_def)




























subsection \<open>The whole build\<close>




subsection \<open>Aggregates in terms of the bodies of a subtree\<close>


definition bodyMass :: "Heap \<Rightarrow> addr list \<Rightarrow> real" where
  "bodyMass h bs = sum_list (map (\<lambda>b. mass (cells h b)) bs)"

definition bodyMomentX :: "Heap \<Rightarrow> addr list \<Rightarrow> real" where
  "bodyMomentX h bs = sum_list (map (\<lambda>b. mass (cells h b) * px (position (cells h b))) bs)"

definition bodyMomentY :: "Heap \<Rightarrow> addr list \<Rightarrow> real" where
  "bodyMomentY h bs = sum_list (map (\<lambda>b. mass (cells h b) * py (position (cells h b))) bs)"

lemma body_sums_append [simp]:
  "bodyMass h (xs @ ys) = bodyMass h xs + bodyMass h ys"
  "bodyMomentX h (xs @ ys) = bodyMomentX h xs + bodyMomentX h ys"
  "bodyMomentY h (xs @ ys) = bodyMomentY h xs + bodyMomentY h ys"
  by (simp_all add: bodyMass_def bodyMomentX_def bodyMomentY_def)

lemma body_sums_Nil [simp]:
  "bodyMass h [] = 0" "bodyMomentX h [] = 0" "bodyMomentY h [] = 0"
  by (simp_all add: bodyMass_def bodyMomentX_def bodyMomentY_def)







section \<open>The traversal with an opening parameter of zero\<close>















section \<open>Worked inputs for the tree and the traversal\<close>













end
